theory Spec2Isabelle
  imports Complex_Main "HOL-Library.Countable"
begin

section \<open>Errors\<close>

text \<open>
  The Python exceptions the modelled code raises. The specification's \<open>InvalidArgument\<close>,
  \<open>InvalidState\<close> and \<open>CapacityExceeded\<close> are all raised as \<open>ValueError\<close> in the source;
  its \<open>TypeMismatch\<close> is \<open>TypeError\<close>. \<open>OverflowError\<close> and \<open>ZeroDivisionError\<close> come from
  the float arithmetic the source uses.
\<close>

datatype error = ValueError | TypeError | ZeroDivisionError | OverflowError

section \<open>Python floats\<close>

text \<open>
  A float is a finite binary64 value, which is a rational number, an infinity or a NaN. The
  arithmetic of the platform is a parameter of the model: \<open>rnd\<close> rounds the exact result of
  an operation to the nearest binary64 value; the result overflows to an infinity when the
  rounded magnitude exceeds the largest finite float. Comparisons and the conversions to an
  integer are exact. The sign of a zero is not observable by the code modelled here.
\<close>

datatype pyfloat = Finite rat | PosInf | NegInf | NaN

definition DBL_MAX :: rat where
  "DBL_MAX = (2 ^ 53 - 1) * 2 ^ 971"

definition to_float :: "(rat \<Rightarrow> rat) \<Rightarrow> rat \<Rightarrow> pyfloat" where
  "to_float rnd x =
     (let y = rnd x
      in if DBL_MAX < y then PosInf else if y < - DBL_MAX then NegInf else Finite y)"

definition float_of_int :: "(rat \<Rightarrow> rat) \<Rightarrow> int \<Rightarrow> error + pyfloat" where
  \<comment> \<open>The conversion of an \<open>int\<close> operand of a float operation: OverflowError (``int too
      large to convert to float'') from \<open>2^1024 - 2^970\<close> on, the first integer that rounds
      to \<open>2^1024\<close>.\<close>
  "float_of_int rnd n =
     (if 2 ^ 1024 - 2 ^ 970 \<le> \<bar>n\<bar> then Inl OverflowError
      else Inr (Finite (rnd (of_int n))))"

fun fl_lt :: "pyfloat \<Rightarrow> pyfloat \<Rightarrow> bool" where
  "fl_lt (Finite x) (Finite y) = (x < y)"
| "fl_lt (Finite x) PosInf = True"
| "fl_lt NegInf (Finite y) = True"
| "fl_lt NegInf PosInf = True"
| "fl_lt a b = False"

fun fl_le :: "pyfloat \<Rightarrow> pyfloat \<Rightarrow> bool" where
  "fl_le (Finite x) (Finite y) = (x \<le> y)"
| "fl_le (Finite x) PosInf = True"
| "fl_le NegInf (Finite y) = True"
| "fl_le NegInf PosInf = True"
| "fl_le NegInf NegInf = True"
| "fl_le PosInf PosInf = True"
| "fl_le a b = False"

fun fl_neg :: "pyfloat \<Rightarrow> pyfloat" where
  "fl_neg (Finite x) = Finite (- x)"
| "fl_neg PosInf = NegInf"
| "fl_neg NegInf = PosInf"
| "fl_neg NaN = NaN"

fun fl_add :: "(rat \<Rightarrow> rat) \<Rightarrow> pyfloat \<Rightarrow> pyfloat \<Rightarrow> pyfloat" where
  "fl_add rnd (Finite x) (Finite y) = to_float rnd (x + y)"
| "fl_add rnd NaN b = NaN"
| "fl_add rnd a NaN = NaN"
| "fl_add rnd PosInf NegInf = NaN"
| "fl_add rnd NegInf PosInf = NaN"
| "fl_add rnd PosInf b = PosInf"
| "fl_add rnd NegInf b = NegInf"
| "fl_add rnd a PosInf = PosInf"
| "fl_add rnd a NegInf = NegInf"

definition fl_sub :: "(rat \<Rightarrow> rat) \<Rightarrow> pyfloat \<Rightarrow> pyfloat \<Rightarrow> pyfloat" where
  "fl_sub rnd a b = fl_add rnd a (fl_neg b)"

fun fl_mul :: "(rat \<Rightarrow> rat) \<Rightarrow> pyfloat \<Rightarrow> pyfloat \<Rightarrow> pyfloat" where
  "fl_mul rnd (Finite x) (Finite y) = to_float rnd (x * y)"
| "fl_mul rnd NaN b = NaN"
| "fl_mul rnd a NaN = NaN"
| "fl_mul rnd a b =
     (if a = Finite 0 \<or> b = Finite 0 then NaN
      else if fl_lt a (Finite 0) = fl_lt b (Finite 0) then PosInf else NegInf)"

fun fl_div :: "(rat \<Rightarrow> rat) \<Rightarrow> pyfloat \<Rightarrow> pyfloat \<Rightarrow> error + pyfloat" where
  "fl_div rnd a (Finite y) =
     (if y = 0 then Inl ZeroDivisionError
      else case a of
             Finite x \<Rightarrow> Inr (to_float rnd (x / y))
           | NaN \<Rightarrow> Inr NaN
           | PosInf \<Rightarrow> Inr (if y < 0 then NegInf else PosInf)
           | NegInf \<Rightarrow> Inr (if y < 0 then PosInf else NegInf))"
| "fl_div rnd a NaN = Inr NaN"
| "fl_div rnd (Finite x) b = Inr (Finite 0)"
| "fl_div rnd a b = Inr NaN"

fun math_floor :: "pyfloat \<Rightarrow> error + int" where
  "math_floor (Finite x) = Inr \<lfloor>x\<rfloor>"
| "math_floor NaN = Inl ValueError"
| "math_floor v = Inl OverflowError"

fun math_ceil :: "pyfloat \<Rightarrow> error + int" where
  "math_ceil (Finite x) = Inr \<lceil>x\<rceil>"
| "math_ceil NaN = Inl ValueError"
| "math_ceil v = Inl OverflowError"

fun py_int :: "pyfloat \<Rightarrow> error + int" where
  \<comment> \<open>Python's \<open>int(v)\<close> on a float: truncation toward zero.\<close>
  "py_int (Finite x) = Inr (if 0 \<le> x then \<lfloor>x\<rfloor> else \<lceil>x\<rceil>)"
| "py_int NaN = Inl ValueError"
| "py_int v = Inl OverflowError"

fun py_round :: "pyfloat \<Rightarrow> error + int" where
  \<comment> \<open>Python's one-argument \<open>round(v)\<close>: nearest integer, ties to even.\<close>
  "py_round (Finite x) =
     Inr (let f = \<lfloor>x\<rfloor>; d = x - of_int f
          in if d < 1 / 2 then f
             else if 1 / 2 < d then f + 1
             else if even f then f else f + 1)"
| "py_round NaN = Inl ValueError"
| "py_round v = Inl OverflowError"

section \<open>core.py: currencies, rounding, Money\<close>

datatype Currency = EUR | USD | GBP | JPY | KWD | BTC

fun decimals :: "Currency \<Rightarrow> nat" where
  "decimals EUR = 2"
| "decimals USD = 2"
| "decimals GBP = 2"
| "decimals JPY = 0"
| "decimals KWD = 3"
| "decimals BTC = 8"

definition multiplier :: "Currency \<Rightarrow> int" where
  "multiplier c = 10 ^ decimals c"

datatype RoundingMode = HALF_UP | HALF_EVEN | DOWN | UP | HALF_DOWN

definition half_up :: "(rat \<Rightarrow> rat) \<Rightarrow> pyfloat \<Rightarrow> error + int" where
  "half_up rnd v = math_floor (fl_add rnd v (Finite (1 / 2)))"

definition half_even :: "pyfloat \<Rightarrow> error + int" where
  "half_even v = py_round v"

definition down :: "pyfloat \<Rightarrow> error + int" where
  "down v = (if fl_le (Finite 0) v then py_int v else math_ceil v)"

definition up :: "pyfloat \<Rightarrow> error + int" where
  "up v = (if fl_le (Finite 0) v then math_ceil v else py_int v)"

definition half_down :: "(rat \<Rightarrow> rat) \<Rightarrow> pyfloat \<Rightarrow> error + int" where
  "half_down rnd v =
     (if fl_le (Finite 0) v then math_ceil (fl_sub rnd v (Finite (1 / 2)))
      else math_floor (fl_add rnd v (Finite (1 / 2))))"

fun apply_rounding :: "(rat \<Rightarrow> rat) \<Rightarrow> pyfloat \<Rightarrow> RoundingMode \<Rightarrow> error + int" where
  "apply_rounding rnd v HALF_UP = half_up rnd v"
| "apply_rounding rnd v HALF_EVEN = half_even v"
| "apply_rounding rnd v DOWN = down v"
| "apply_rounding rnd v UP = up v"
| "apply_rounding rnd v HALF_DOWN = half_down rnd v"

record Money =
  minor_units :: int
  currency :: Currency

definition of_minor :: "int \<Rightarrow> Currency \<Rightarrow> Money" where
  "of_minor u c = \<lparr>minor_units = u, currency = c\<rparr>"

definition money_of :: "int \<Rightarrow> Currency \<Rightarrow> Money" where
  "money_of major c = \<lparr>minor_units = major * multiplier c, currency = c\<rparr>"

definition zero :: "Currency \<Rightarrow> Money" where
  "zero c = \<lparr>minor_units = 0, currency = c\<rparr>"

definition euro :: "int \<Rightarrow> Money" where
  "euro v = money_of v EUR"

definition usd :: "int \<Rightarrow> Money" where
  "usd v = money_of v USD"

definition MAX_DISTRIBUTION_PARTS :: int where
  "MAX_DISTRIBUTION_PARTS = 10000"

definition py_range :: "int \<Rightarrow> int list" where
  \<comment> \<open>\<open>range(n)\<close>: the integers \<open>0, ..., n - 1\<close>, empty when \<open>n \<le> 0\<close>.\<close>
  "py_range n = map int [0..<nat n]"

definition distribute :: "Money \<Rightarrow> int \<Rightarrow> error + Money list" where
  "distribute m n =
     (if n \<le> 0 then Inl ValueError
      else if MAX_DISTRIBUTION_PARTS < n then Inl ValueError
      else
        let base = minor_units m div n;
            remainder = minor_units m mod n
        in Inr (map (\<lambda>i. of_minor (base + (if i < remainder then 1 else 0)) (currency m))
                    (py_range n)))"

definition money_add :: "Money \<Rightarrow> Money \<Rightarrow> error + Money" where
  "money_add a b =
     (if currency a \<noteq> currency b then Inl TypeError
      else Inr (of_minor (minor_units a + minor_units b) (currency a)))"

definition money_sub :: "Money \<Rightarrow> Money \<Rightarrow> error + Money" where
  "money_sub a b =
     (if currency a \<noteq> currency b then Inl TypeError
      else Inr (of_minor (minor_units a - minor_units b) (currency a)))"

fun money_sum :: "Money \<Rightarrow> Money list \<Rightarrow> error + Money" where
  \<comment> \<open>The tests' accumulation loop \<open>total = start; for p in parts: total = total + p\<close>.\<close>
  "money_sum acc [] = Inr acc"
| "money_sum acc (p # ps) =
     (case money_add acc p of Inl e \<Rightarrow> Inl e | Inr t \<Rightarrow> money_sum t ps)"

fun py_max :: "pyfloat list \<Rightarrow> error + pyfloat" where
  \<comment> \<open>\<open>max(xs)\<close>: the running maximum is replaced when an item is greater.\<close>
  "py_max [] = Inl ValueError"
| "py_max (x # xs) = Inr (foldl (\<lambda>best w. if fl_lt best w then w else best) x xs)"

fun py_index :: "'a list \<Rightarrow> 'a \<Rightarrow> error + nat" where
  "py_index [] x = Inl ValueError"
| "py_index (y # ys) x =
     (if y = x then Inr 0
      else case py_index ys x of Inl e \<Rightarrow> Inl e | Inr i \<Rightarrow> Inr (Suc i))"

fun map_err :: "('a \<Rightarrow> error + 'b) \<Rightarrow> 'a list \<Rightarrow> error + 'b list" where
  \<comment> \<open>A list comprehension whose element expression can raise: the first exception wins.\<close>
  "map_err f [] = Inr []"
| "map_err f (x # xs) =
     (case f x of
        Inl e \<Rightarrow> Inl e
      | Inr y \<Rightarrow> (case map_err f xs of Inl e \<Rightarrow> Inl e | Inr ys \<Rightarrow> Inr (y # ys)))"

text \<open>
  \<open>distribute_weighted\<close>. The float sum \<open>sum(weights)\<close> is a parameter \<open>fsum\<close> (its rounding
  depends on the interpreter's summation). \<open>self._minor_units * p\<close> converts the amount to a
  float before it multiplies.
\<close>

definition distribute_weighted ::
  "(rat \<Rightarrow> rat) \<Rightarrow> (pyfloat list \<Rightarrow> pyfloat) \<Rightarrow> Money \<Rightarrow> pyfloat list \<Rightarrow> RoundingMode
     \<Rightarrow> error + Money list" where
  "distribute_weighted rnd fsum m weights rounding =
     (if weights = [] then Inl ValueError
      else if MAX_DISTRIBUTION_PARTS < int (length weights) then Inl ValueError
      else if list_ex (\<lambda>w. fl_lt w (Finite 0)) weights then Inl ValueError
      else
        let total_weight = fsum weights
        in if total_weight = Finite 0 then Inl ValueError
           else
             (case map_err (\<lambda>w. fl_div rnd w total_weight) weights of
                Inl e \<Rightarrow> Inl e
              | Inr proportions \<Rightarrow>
             (case map_err (\<lambda>p. case float_of_int rnd (minor_units m) of
                                   Inl e \<Rightarrow> Inl e
                                 | Inr units \<Rightarrow> Inr (fl_mul rnd units p)) proportions of
                Inl e \<Rightarrow> Inl e
              | Inr raw_amounts \<Rightarrow>
             (case map_err (\<lambda>a. apply_rounding rnd a rounding) raw_amounts of
                Inl e \<Rightarrow> Inl e
              | Inr rounded \<Rightarrow>
                  let diff = minor_units m - sum_list rounded
                  in if diff \<noteq> 0 then
                       (case py_max weights of
                          Inl e \<Rightarrow> Inl e
                        | Inr mx \<Rightarrow>
                            (case py_index weights mx of
                               Inl e \<Rightarrow> Inl e
                             | Inr max_idx \<Rightarrow>
                                 Inr (map (\<lambda>r. of_minor r (currency m))
                                        (rounded[max_idx := rounded ! max_idx + diff]))))
                     else Inr (map (\<lambda>r. of_minor r (currency m)) rounded)))))"

text \<open>
  The fiscal operations. \<open>rate_percent / 100\<close> is a float division; the amount is converted
  to a float when it meets a float operand, which raises OverflowError for an amount too
  large; rounding an infinite product raises OverflowError.
\<close>

definition add_vat ::
  "(rat \<Rightarrow> rat) \<Rightarrow> Money \<Rightarrow> pyfloat \<Rightarrow> RoundingMode \<Rightarrow> error + Money \<times> Money \<times> Money" where
  "add_vat rnd m rate_percent rounding =
     (case fl_div rnd rate_percent (Finite 100) of
        Inl e \<Rightarrow> Inl e
      | Inr rate_decimal \<Rightarrow>
     (case float_of_int rnd (minor_units m) of
        Inl e \<Rightarrow> Inl e
      | Inr units \<Rightarrow>
          let vat_float = fl_mul rnd units rate_decimal
          in (case apply_rounding rnd vat_float rounding of
                Inl e \<Rightarrow> Inl e
              | Inr vat_minor \<Rightarrow>
                  let net = m;
                      vat = of_minor vat_minor (currency m);
                      gross = of_minor (minor_units m + vat_minor) (currency m)
                  in Inr (net, vat, gross))))"

definition extract_vat ::
  "(rat \<Rightarrow> rat) \<Rightarrow> Money \<Rightarrow> pyfloat \<Rightarrow> RoundingMode \<Rightarrow> error + Money \<times> Money \<times> Money" where
  "extract_vat rnd m rate_percent rounding =
     (case fl_div rnd rate_percent (Finite 100) of
        Inl e \<Rightarrow> Inl e
      | Inr rate_decimal \<Rightarrow>
          let denominator = fl_add rnd (Finite 1) rate_decimal
          in (case float_of_int rnd (minor_units m) of
                Inl e \<Rightarrow> Inl e
              | Inr units \<Rightarrow>
             (case fl_div rnd units denominator of
                Inl e \<Rightarrow> Inl e
              | Inr net_float \<Rightarrow>
             (case apply_rounding rnd net_float rounding of
                Inl e \<Rightarrow> Inl e
              | Inr net_minor \<Rightarrow>
                  let vat_minor = minor_units m - net_minor;
                      net = of_minor net_minor (currency m);
                      vat = of_minor vat_minor (currency m);
                      gross = m
                  in Inr (net, vat, gross)))))"

definition apply_discount ::
  "(rat \<Rightarrow> rat) \<Rightarrow> Money \<Rightarrow> pyfloat \<Rightarrow> RoundingMode \<Rightarrow> error + Money \<times> Money" where
  "apply_discount rnd m percent rounding =
     (case fl_div rnd percent (Finite 100) of
        Inl e \<Rightarrow> Inl e
      | Inr fraction \<Rightarrow>
     (case float_of_int rnd (minor_units m) of
        Inl e \<Rightarrow> Inl e
      | Inr units \<Rightarrow>
          let discount_float = fl_mul rnd units fraction
          in (case apply_rounding rnd discount_float rounding of
                Inl e \<Rightarrow> Inl e
              | Inr discount_minor \<Rightarrow>
                  let discount = of_minor discount_minor (currency m);
                      discounted = of_minor (minor_units m - discount_minor) (currency m)
                  in Inr (discount, discounted))))"

definition money_eq :: "Money \<Rightarrow> Money \<Rightarrow> bool" where
  "money_eq a b = (minor_units a = minor_units b \<and> currency a = currency b)"

definition check_same_currency :: "Money \<Rightarrow> Money \<Rightarrow> error + unit" where
  "check_same_currency a b = (if currency a \<noteq> currency b then Inl TypeError else Inr ())"

definition money_lt :: "Money \<Rightarrow> Money \<Rightarrow> error + bool" where
  "money_lt a b =
     (case check_same_currency a b of Inl e \<Rightarrow> Inl e | Inr _ \<Rightarrow> Inr (minor_units a < minor_units b))"

definition money_le :: "Money \<Rightarrow> Money \<Rightarrow> error + bool" where
  "money_le a b =
     (case check_same_currency a b of Inl e \<Rightarrow> Inl e | Inr _ \<Rightarrow> Inr (minor_units a \<le> minor_units b))"

definition money_gt :: "Money \<Rightarrow> Money \<Rightarrow> error + bool" where
  "money_gt a b =
     (case check_same_currency a b of Inl e \<Rightarrow> Inl e | Inr _ \<Rightarrow> Inr (minor_units a > minor_units b))"

definition money_ge :: "Money \<Rightarrow> Money \<Rightarrow> error + bool" where
  "money_ge a b =
     (case check_same_currency a b of Inl e \<Rightarrow> Inl e | Inr _ \<Rightarrow> Inr (minor_units a \<ge> minor_units b))"

datatype comparison = EQ | LT | LE | GT | GE

fun compare_money :: "comparison \<Rightarrow> Money \<Rightarrow> Money \<Rightarrow> error + bool" where
  "compare_money EQ a b = Inr (money_eq a b)"
| "compare_money LT a b = money_lt a b"
| "compare_money LE a b = money_le a b"
| "compare_money GT a b = money_gt a b"
| "compare_money GE a b = money_ge a b"

text \<open>
  Vocabulary for the float results. \<open>rounds_to_nearest\<close> collects the properties of binary64
  rounding that the results need: it is monotone and leaves zero and the powers of two
  up to \<open>2^1023\<close> (and their negations) as they are. \<open>sequential_sum\<close> is the float sum
  accumulated left to right. \<open>binary64_sample\<close> is a rounding function that agrees with
  binary64 round-to-nearest at the values the examples below touch
  (\<open>6/17\<close>, \<open>11/17\<close> and their products with 85) and is exact elsewhere.
  \<open>weighted_share\<close> is the computation \<open>distribute_weighted\<close> performs for one weight.
\<close>

definition rounds_to_nearest :: "(rat \<Rightarrow> rat) \<Rightarrow> bool" where
  "rounds_to_nearest rnd =
     (mono rnd \<and> rnd 0 = 0
      \<and> (\<forall>k \<le> 1023. rnd (2 ^ k) = 2 ^ k \<and> rnd (- (2 ^ k)) = - (2 ^ k)))"

definition sequential_sum :: "(rat \<Rightarrow> rat) \<Rightarrow> pyfloat list \<Rightarrow> pyfloat" where
  "sequential_sum rnd ws = foldl (fl_add rnd) (Finite 0) ws"

definition binary64_sample :: "rat \<Rightarrow> rat" where
  "binary64_sample x =
     (if x = 6 / 17 then 6358023003346583 / 18014398509481984
      else if x = 11 / 17 then 5828187753067701 / 9007199254740992
      else if x = 85 * (6358023003346583 / 18014398509481984)
        then 8444249301319681 / 281474976710656
      else if x = 85 * (5828187753067701 / 9007199254740992) then 55
      else x)"

definition weighted_share ::
  "(rat \<Rightarrow> rat) \<Rightarrow> Money \<Rightarrow> pyfloat \<Rightarrow> RoundingMode \<Rightarrow> pyfloat \<Rightarrow> error + int" where
  "weighted_share rnd m total_weight rounding w =
     (case fl_div rnd w total_weight of
        Inl e \<Rightarrow> Inl e
      | Inr p \<Rightarrow>
          (case float_of_int rnd (minor_units m) of
             Inl e \<Rightarrow> Inl e
           | Inr units \<Rightarrow> apply_rounding rnd (fl_mul rnd units p) rounding))"

section \<open>ifx.py: transactions, gate, ledger, workflow\<close>

datatype EpistemicStatus = FACT | INFERENCE | ASSUMPTION | AI_GENERATED

type_synonym datetime = int

record TransactionMetadata =
  source :: string
  confidence :: pyfloat
  timestamp :: datetime
  rationale :: "string option"
  epistemic_status :: EpistemicStatus
  policy_version :: string
  session_id :: string
  parent_tx_id :: "string option"

record SignedTransaction =
  tx_id :: string
  amount :: Money
  metadata :: TransactionMetadata
  signature :: "string option"
  status :: string
  rejection_reason :: "string option"

text \<open>
  SHA-256 over the canonical JSON text is a parameter of the model: a function from the
  fields serialised to the bytes of the digest. \<open>hexdigest()\<close> renders a digest as two
  lowercase hexadecimal digits per byte. \<open>hmac.compare_digest\<close> on two \<open>str\<close> arguments
  raises TypeError unless both are ASCII.
\<close>

type_synonym byte = nat

type_synonym tx_digest = "string \<Rightarrow> Money \<Rightarrow> TransactionMetadata \<Rightarrow> byte list"

definition hex_digit :: "nat \<Rightarrow> char" where
  "hex_digit n = (if n < 10 then char_of (48 + n) else char_of (87 + n))"

definition hexdigest :: "byte list \<Rightarrow> string" where
  "hexdigest bs = concat (map (\<lambda>b. [hex_digit (b div 16 mod 16), hex_digit (b mod 16)]) bs)"

definition is_ascii :: "string \<Rightarrow> bool" where
  "is_ascii s = list_all (\<lambda>c. (of_char c :: nat) < 128) s"




definition compare_digest :: "string \<Rightarrow> string \<Rightarrow> error + bool" where
  "compare_digest a b = (if is_ascii a \<and> is_ascii b then Inr (a = b) else Inl TypeError)"

text \<open>
  \<open>sign\<close> and \<open>verify_signature\<close> serialise the same three fields; the transitions build a
  new value and leave the receiver as it is. Only \<open>execute\<close> looks at the status.
\<close>

definition sign :: "tx_digest \<Rightarrow> SignedTransaction \<Rightarrow> SignedTransaction" where
  "sign D tx =
     (let content_digest = hexdigest (D (tx_id tx) (amount tx) (metadata tx))
      in \<lparr>tx_id = tx_id tx, amount = amount tx, metadata = metadata tx,
          signature = Some content_digest, status = status tx,
          rejection_reason = rejection_reason tx\<rparr>)"

definition verify_signature :: "tx_digest \<Rightarrow> SignedTransaction \<Rightarrow> error + bool" where
  "verify_signature D tx =
     (case signature tx of
        None \<Rightarrow> Inr False
      | Some s \<Rightarrow> compare_digest s (hexdigest (D (tx_id tx) (amount tx) (metadata tx))))"

definition admit :: "SignedTransaction \<Rightarrow> SignedTransaction" where
  "admit tx =
     \<lparr>tx_id = tx_id tx, amount = amount tx, metadata = metadata tx,
      signature = signature tx, status = ''admitted'', rejection_reason = None\<rparr>"

definition reject :: "SignedTransaction \<Rightarrow> string \<Rightarrow> SignedTransaction" where
  "reject tx reason_text =
     \<lparr>tx_id = tx_id tx, amount = amount tx, metadata = metadata tx,
      signature = signature tx, status = ''rejected'', rejection_reason = Some reason_text\<rparr>"

definition execute :: "SignedTransaction \<Rightarrow> error + SignedTransaction" where
  "execute tx =
     (if status tx \<noteq> ''admitted'' then Inl ValueError
      else Inr \<lparr>tx_id = tx_id tx, amount = amount tx, metadata = metadata tx,
                signature = signature tx, status = ''executed'', rejection_reason = None\<rparr>)"


record QualificationPolicy =
  min_confidence :: pyfloat
  max_amount :: "Money option"
  require_human_approval_above :: "Money option"
  allowed_sources :: "string list option"
  blocked_sources :: "string list option"
  version :: string
  name :: string

record GateDecision =
  admitted :: bool
  reason :: string
  decision_policy_version :: string
  checks_passed :: "string list"
  checks_failed :: "string list"
  requires_human_approval :: bool

datatype check_msg =
    ConfidencePassed pyfloat pyfloat
  | ConfidenceFailed pyfloat pyfloat
  | AmountNoLimit
  | AmountCurrencyMismatch Currency Currency
  | AmountPassed Money Money
  | AmountFailed Money Money
  | HumanNotConfigured
  | HumanRequired Money Money
  | HumanNotRequired
  | SourceAllowed string
  | SourceNotAllowed string
  | SourceBlocked string
  | SourceNotBlocked string
  | SourceNoRestrictions
  | CustomPassed nat
  | CustomFailed nat string

record Gate =
  policy :: QualificationPolicy
  custom_checks :: "(SignedTransaction \<Rightarrow> string option) list"

definition initial_gate :: "QualificationPolicy \<Rightarrow> Gate" where
  "initial_gate p = \<lparr>policy = p, custom_checks = []\<rparr>"

definition add_check :: "Gate \<Rightarrow> (SignedTransaction \<Rightarrow> string option) \<Rightarrow> Gate" where
  "add_check g c = g\<lparr>custom_checks := custom_checks g @ [c]\<rparr>"

definition check_confidence ::
  "(check_msg \<Rightarrow> string) \<Rightarrow> Gate \<Rightarrow> SignedTransaction \<Rightarrow> string list \<times> string list" where
  "check_confidence render g tx =
     (let conf = confidence (metadata tx);
          min_conf = min_confidence (policy g)
      in if fl_le min_conf conf then ([render (ConfidencePassed conf min_conf)], [])
         else ([], [render (ConfidenceFailed conf min_conf)]))"

text \<open>
  \<open>_check_amount\<close> tests the currencies before it compares. \<open>_check_human_approval\<close> binds
  \<open>same_currency\<close> and then \<open>exceeds = tx.amount > threshold\<close>, so the comparison (which raises
  TypeError across currencies) runs whatever \<open>same_currency\<close> is.
\<close>

definition check_amount ::
  "(check_msg \<Rightarrow> string) \<Rightarrow> Gate \<Rightarrow> SignedTransaction \<Rightarrow> error + string list \<times> string list" where
  "check_amount render g tx =
     (case max_amount (policy g) of
        None \<Rightarrow> Inr ([render AmountNoLimit], [])
      | Some max_amt \<Rightarrow>
          if currency (amount tx) \<noteq> currency max_amt
          then Inr ([], [render (AmountCurrencyMismatch (currency (amount tx)) (currency max_amt))])
          else (case money_le (amount tx) max_amt of
                  Inl e \<Rightarrow> Inl e
                | Inr in_limit \<Rightarrow>
                    if in_limit then Inr ([render (AmountPassed (amount tx) max_amt)], [])
                    else Inr ([], [render (AmountFailed (amount tx) max_amt)])))"

definition check_human_approval ::
  "(check_msg \<Rightarrow> string) \<Rightarrow> Gate \<Rightarrow> SignedTransaction \<Rightarrow> error + string list \<times> bool" where
  "check_human_approval render g tx =
     (case require_human_approval_above (policy g) of
        None \<Rightarrow> Inr ([render HumanNotConfigured], False)
      | Some threshold \<Rightarrow>
          let same_currency = (currency (amount tx) = currency threshold)
          in (case money_gt (amount tx) threshold of
                Inl e \<Rightarrow> Inl e
              | Inr exceeds \<Rightarrow>
                  if same_currency \<and> exceeds
                  then Inr ([render (HumanRequired (amount tx) threshold)], True)
                  else Inr ([render HumanNotRequired], False)))"

definition check_source ::
  "(check_msg \<Rightarrow> string) \<Rightarrow> Gate \<Rightarrow> SignedTransaction \<Rightarrow> string list \<times> string list" where
  "check_source render g tx =
     (let src = source (metadata tx)
      in case allowed_sources (policy g) of
           Some allowed \<Rightarrow>
             if List.member allowed src then ([render (SourceAllowed src)], [])
             else ([], [render (SourceNotAllowed src)])
         | None \<Rightarrow>
             (case blocked_sources (policy g) of
                Some blocked \<Rightarrow>
                  if List.member blocked src then ([], [render (SourceBlocked src)])
                  else ([render (SourceNotBlocked src)], [])
              | None \<Rightarrow> ([render SourceNoRestrictions], [])))"

fun run_checks_from ::
  "(check_msg \<Rightarrow> string) \<Rightarrow> nat \<Rightarrow> (SignedTransaction \<Rightarrow> string option) list
     \<Rightarrow> SignedTransaction \<Rightarrow> string list \<times> string list" where
  "run_checks_from render i [] tx = ([], [])"
| "run_checks_from render i (c # cs) tx =
     (case run_checks_from render (Suc i) cs tx of
        (passed, failed) \<Rightarrow>
          (case c tx of
             None \<Rightarrow> (render (CustomPassed i) # passed, failed)
           | Some r \<Rightarrow> (passed, render (CustomFailed i r) # failed)))"

definition run_custom_checks ::
  "(check_msg \<Rightarrow> string) \<Rightarrow> Gate \<Rightarrow> SignedTransaction \<Rightarrow> string list \<times> string list" where
  "run_custom_checks render g tx = run_checks_from render 0 (custom_checks g) tx"

fun py_join :: "string \<Rightarrow> string list \<Rightarrow> string" where
  "py_join sep [] = []"
| "py_join sep [x] = x"
| "py_join sep (x # y # ys) = x @ sep @ py_join sep (y # ys)"

definition evaluate ::
  "(check_msg \<Rightarrow> string) \<Rightarrow> Gate \<Rightarrow> SignedTransaction \<Rightarrow> error + GateDecision" where
  "evaluate render g tx =
     (case check_confidence render g tx of
        (p1, f1) \<Rightarrow>
     (case check_amount render g tx of
        Inl e \<Rightarrow> Inl e
      | Inr (p2, f2) \<Rightarrow>
     (case check_human_approval render g tx of
        Inl e \<Rightarrow> Inl e
      | Inr (p3, requires_human) \<Rightarrow>
     (case check_source render g tx of
        (p4, f4) \<Rightarrow>
     (case run_custom_checks render g tx of
        (p5, f5) \<Rightarrow>
          let passed = p1 @ p2 @ p3 @ p4 @ p5;
              failed = f1 @ f2 @ f4 @ f5;
              is_admitted = (length failed = 0);
              why = (if is_admitted then ''All checks passed'' else py_join ''; '' failed)
          in Inr \<lparr>admitted = is_admitted,
                    reason = why,
                    decision_policy_version = version (policy g),
                    checks_passed = passed,
                    checks_failed = failed,
                    requires_human_approval = requires_human\<rparr>)))))"


















section \<open>Notions used in the statements\<close>

definition exact_share :: "Money \<Rightarrow> rat list \<Rightarrow> RoundingMode \<Rightarrow> rat \<Rightarrow> error + int" where
  \<comment> \<open>The specification's words for one part: minorUnits times weight over the sum of the
      weights, in exact arithmetic, rounded under the chosen mode.\<close>
  "exact_share m ws rounding w =
     apply_rounding (\<lambda>x. x) (Finite (of_int (minor_units m) * w / sum_list ws)) rounding"

datatype transition = Admit | Reject string | Execute

fun apply_transition :: "transition \<Rightarrow> SignedTransaction \<Rightarrow> error + SignedTransaction" where
  "apply_transition Admit tx = Inr (admit tx)"
| "apply_transition (Reject why) tx = Inr (reject tx why)"
| "apply_transition Execute tx = execute tx"

fun apply_transitions :: "transition list \<Rightarrow> SignedTransaction \<Rightarrow> error + SignedTransaction" where
  "apply_transitions [] tx = Inr tx"
| "apply_transitions (t # ts) tx =
     (case apply_transition t tx of Inl e \<Rightarrow> Inl e | Inr tx' \<Rightarrow> apply_transitions ts tx')"

fun documented_edge :: "string \<Rightarrow> transition \<Rightarrow> bool" where
  \<comment> \<open>The edges the specification documents: pending to admitted or rejected, admitted to
      executed.\<close>
  "documented_edge s Admit = (s = ''pending'')"
| "documented_edge s (Reject why) = (s = ''pending'')"
| "documented_edge s Execute = (s = ''admitted'')"

fun target_status :: "transition \<Rightarrow> string" where
  "target_status Admit = ''admitted''"
| "target_status (Reject why) = ''rejected''"
| "target_status Execute = ''executed''"

fun permitted_edge :: "string \<Rightarrow> transition \<Rightarrow> bool" where
  \<comment> \<open>The documented edges and the one the workflow takes besides them: an admitted
      transaction is rejected when its execute callback fails.\<close>
  "permitted_edge s Admit = (s = ''pending'')"
| "permitted_edge s (Reject why) = (s = ''pending'' \<or> s = ''admitted'')"
| "permitted_edge s Execute = (s = ''admitted'')"

fun permitted_path :: "string \<Rightarrow> transition list \<Rightarrow> bool" where
  "permitted_path s [] = True"
| "permitted_path s (t # ts) = (permitted_edge s t \<and> permitted_path (target_status t) ts)"

definition lifecycle_rank :: "string \<Rightarrow> nat" where
  \<comment> \<open>The order of the lifecycle: pending, then admitted, then a final status.\<close>
  "lifecycle_rank s = (if s = ''pending'' then 0 else if s = ''admitted'' then 1 else 2)"

definition sample_transaction :: "string \<Rightarrow> SignedTransaction" where
  "sample_transaction st =
     \<lparr>tx_id = ''tx-1'', amount = euro 100,
      metadata = \<lparr>source = ''test'', confidence = Finite (9 / 10), timestamp = 0,
                   rationale = None, epistemic_status = AI_GENERATED,
                   policy_version = ''KQR-2025-01'', session_id = ''s-1'',
                   parent_tx_id = None\<rparr>,
      signature = None, status = st, rejection_reason = None\<rparr>"

definition sample_digest :: tx_digest where
  "sample_digest i a m = map of_char (i @ source m)"

definition sample_policy :: "Money option \<Rightarrow> QualificationPolicy" where
  "sample_policy threshold =
     \<lparr>min_confidence = Finite (85 / 100), max_amount = None,
      require_human_approval_above = threshold,
      allowed_sources = None, blocked_sources = None,
      version = ''KQR-2025-01'', name = ''default''\<rparr>"




















section \<open>Properties of Money\<close>

lemma floor_rat_divide_numeral:
  "\<lfloor>numeral a / numeral b :: rat\<rfloor> = numeral a div numeral b"
  using floor_divide_of_int_eq[of "numeral a" "numeral b", where ?'a = rat] by simp

lemma floor_rat_minus_divide_numeral:
  "\<lfloor>- (numeral a / numeral b) :: rat\<rfloor> = - numeral a div numeral b"
  using floor_divide_of_int_eq[of "- numeral a" "numeral b", where ?'a = rat] by simp

lemma ceiling_rat_divide_numeral:
  "\<lceil>numeral a / numeral b :: rat\<rceil> = - (- numeral a div numeral b)"
  unfolding ceiling_def by (simp add: floor_rat_minus_divide_numeral)

lemma ceiling_rat_minus_divide_numeral:
  "\<lceil>- (numeral a / numeral b) :: rat\<rceil> = - (numeral a div numeral b)"
  unfolding ceiling_def by (simp add: floor_rat_divide_numeral)

lemmas rat_rounding_simps =
  floor_rat_divide_numeral floor_rat_minus_divide_numeral
  ceiling_rat_divide_numeral ceiling_rat_minus_divide_numeral

lemma money_sum_same_currency:
  "\<forall>p \<in> set ps. currency p = currency acc \<Longrightarrow>
   money_sum acc ps = Inr (of_minor (minor_units acc + sum_list (map minor_units ps)) (currency acc))"
proof (induction ps arbitrary: acc)
  case Nil
  then show ?case by (simp add: of_minor_def)
next
  case (Cons p ps)
  have c: "currency p = currency acc" using Cons.prems by simp
  let ?t = "of_minor (minor_units acc + minor_units p) (currency acc)"
  have step: "money_add acc p = Inr ?t" using c by (simp add: money_add_def)
  have rest: "\<forall>q \<in> set ps. currency q = currency ?t"
    using Cons.prems by (simp add: of_minor_def)
  show ?case
    using Cons.IH[OF rest] step by (simp add: of_minor_def add.assoc)
qed

lemma sum_list_all_bumped:
  "int k \<le> r \<Longrightarrow>
   sum_list (map (\<lambda>i. b + (if int i < r then 1 else 0)) [0..<k]) = int k * (b + 1)"
  by (induction k) (simp_all add: algebra_simps)

lemma sum_list_indicator_upt:
  "0 \<le> r \<Longrightarrow> r \<le> int k \<Longrightarrow>
   sum_list (map (\<lambda>i. b + (if int i < r then 1 else 0)) [0..<k]) = int k * b + r"
proof (induction k)
  case 0
  then show ?case by simp
next
  case (Suc k)
  show ?case
  proof (cases "r \<le> int k")
    case True
    then show ?thesis using Suc.IH Suc.prems by (simp add: algebra_simps)
  next
    case False
    then have r: "r = int k + 1" using Suc.prems by simp
    then show ?thesis using sum_list_all_bumped[of k r b] by (simp add: algebra_simps)
  qed
qed

text \<open>
  C1. For every Money value \<open>m\<close> (zero and negative amounts included) and every \<open>n\<close> with
  \<open>1 \<le> n \<le> 10000\<close>, \<open>distribute m n\<close> returns a list of exactly \<open>n\<close> Money values, all of
  \<open>m\<close>'s currency, whose sum (accumulated from the zero of that currency) is \<open>m\<close> itself;
  for \<open>n \<le> 0\<close> or \<open>n > 10000\<close> it raises ValueError (the specification's InvalidArgument).
\<close>

theorem distribute_exact:
  "(1 \<le> n \<and> n \<le> 10000 \<longrightarrow>
      (\<exists>parts. distribute m n = Inr parts
         \<and> int (length parts) = n
         \<and> (\<forall>p \<in> set parts. currency p = currency m)
         \<and> money_sum (zero (currency m)) parts = Inr m))
   \<and> (n \<le> 0 \<or> 10000 < n \<longrightarrow> distribute m n = Inl ValueError)"
proof (intro conjI impI)
  assume n: "1 \<le> n \<and> n \<le> 10000"
  define base where "base = minor_units m div n"
  define r where "r = minor_units m mod n"
  define parts where
    "parts = map (\<lambda>i. of_minor (base + (if i < r then 1 else 0)) (currency m)) (py_range n)"
  have d: "distribute m n = Inr parts"
    using n by (simp add: distribute_def MAX_DISTRIBUTION_PARTS_def parts_def base_def r_def)
  have len: "int (length parts) = n"
    using n by (simp add: parts_def py_range_def)
  have cur: "\<forall>p \<in> set parts. currency p = currency m"
    by (auto simp: parts_def of_minor_def)
  have r0: "0 \<le> r" and rn: "r \<le> int (nat n)"
    using n by (simp_all add: r_def less_imp_le)
  have units: "map minor_units parts
      = map (\<lambda>i. base + (if int i < r then 1 else 0)) [0..<nat n]"
    by (simp add: parts_def py_range_def of_minor_def comp_def)
  have "sum_list (map minor_units parts) = int (nat n) * base + r"
    unfolding units by (rule sum_list_indicator_upt[OF r0 rn])
  also have "\<dots> = minor_units m"
    using n by (simp add: base_def r_def)
  finally have whole: "sum_list (map minor_units parts) = minor_units m" .
  have cur0: "\<forall>p \<in> set parts. currency p = currency (zero (currency m))"
    using cur by (simp add: zero_def)
  have "money_sum (zero (currency m)) parts = Inr m"
    using money_sum_same_currency[OF cur0] whole by (simp add: zero_def of_minor_def)
  with d len cur
  show "\<exists>parts. distribute m n = Inr parts
         \<and> int (length parts) = n
         \<and> (\<forall>p \<in> set parts. currency p = currency m)
         \<and> money_sum (zero (currency m)) parts = Inr m"
    by blast
next
  assume "n \<le> 0 \<or> 10000 < n"
  then show "distribute m n = Inl ValueError"
    by (auto simp: distribute_def MAX_DISTRIBUTION_PARTS_def)
qed

theorem distribute_exact_witness:
  "(1 \<le> (3::int) \<and> (3::int) \<le> 10000)
   \<and> (\<exists>parts. distribute (of_minor (- 100) EUR) 3 = Inr parts
         \<and> int (length parts) = 3
         \<and> (\<forall>p \<in> set parts. currency p = currency (of_minor (- 100) EUR))
         \<and> money_sum (zero (currency (of_minor (- 100) EUR))) parts = Inr (of_minor (- 100) EUR))
   \<and> distribute (of_minor (- 100) EUR) 0 = Inl ValueError
   \<and> distribute (of_minor (- 100) EUR) 10001 = Inl ValueError"
  using distribute_exact[of 3 "of_minor (- 100) EUR"]
    distribute_exact[of 0 "of_minor (- 100) EUR"]
    distribute_exact[of 10001 "of_minor (- 100) EUR"]
  by simp

text \<open>
  C2. Rounding mode UP is documented as rounding away from zero, so a negative non-integer such
  as \<open>-2.5\<close> or \<open>-2.3\<close> should round to \<open>-3\<close> (its floor). The code's negative branch is
  \<open>int(v)\<close>, which truncates toward zero: both inputs round to \<open>-2\<close>.
\<close>

theorem up_truncates_negative_input:
  "apply_rounding rnd (Finite (- 5 / 2)) UP = Inr (- 2) \<and> \<lfloor>- 5 / 2 :: rat\<rfloor> = - 3
   \<and> apply_rounding rnd (Finite (- 23 / 10)) UP = Inr (- 2) \<and> \<lfloor>- 23 / 10 :: rat\<rfloor> = - 3"
  by (simp add: up_def rat_rounding_simps)

lemma up_is_ceiling: "apply_rounding rnd (Finite x) UP = Inr \<lceil>x\<rceil>"
  by (simp add: up_def)

lemma down_is_truncation:
  "apply_rounding rnd (Finite x) DOWN = Inr (if 0 \<le> x then \<lfloor>x\<rfloor> else \<lceil>x\<rceil>)"
  by (simp add: down_def)

text \<open>
  C7 as stated fails: equality between Money values of different currencies is answered as an
  ordinary boolean (False), as the test suite expects; it does not raise.
\<close>

theorem different_currency_equality_counterexample:
  "currency (euro 100) \<noteq> currency (usd 100)
   \<and> compare_money EQ (euro 100) (usd 100) = Inr False"
  by (simp add: euro_def usd_def money_of_def money_eq_def)

text \<open>
  C7, amended. For every pair of Money values of different currencies, each ordering comparison
  (\<open><\<close>, \<open><=\<close>, \<open>>\<close>, \<open>>=\<close>) raises TypeError (the specification's TypeMismatch); equality
  does not raise and answers False.
\<close>

theorem different_currency_comparison:
  assumes "currency a \<noteq> currency b"
  shows "compare_money LT a b = Inl TypeError
       \<and> compare_money LE a b = Inl TypeError
       \<and> compare_money GT a b = Inl TypeError
       \<and> compare_money GE a b = Inl TypeError
       \<and> compare_money EQ a b = Inr False"
  using assms
  by (simp add: money_lt_def money_le_def money_gt_def money_ge_def money_eq_def
      check_same_currency_def)

theorem different_currency_comparison_witness:
  "currency (euro 100) \<noteq> currency (usd 100)
   \<and> compare_money LT (euro 100) (usd 100) = Inl TypeError
   \<and> compare_money LE (euro 100) (usd 100) = Inl TypeError
   \<and> compare_money GT (euro 100) (usd 100) = Inl TypeError
   \<and> compare_money GE (euro 100) (usd 100) = Inl TypeError
   \<and> compare_money EQ (euro 100) (usd 100) = Inr False"
proof -
  have h: "currency (euro 100) \<noteq> currency (usd 100)"
    by (simp add: euro_def usd_def money_of_def)
  show ?thesis using h different_currency_comparison[OF h] by simp
qed

lemma rounds_to_nearest_bound:
  assumes r: "rounds_to_nearest rnd" and k: "k \<le> 1023" and x: "\<bar>x\<bar> \<le> 2 ^ k"
  shows "\<bar>rnd x\<bar> \<le> 2 ^ k"
proof -
  have m: "mono rnd" and up: "rnd (2 ^ k) = 2 ^ k" and lo: "rnd (- (2 ^ k)) = - (2 ^ k)"
    using r k by (simp_all add: rounds_to_nearest_def)
  have "- (2 ^ k) \<le> x" and "x \<le> 2 ^ k" using x by simp_all
  then have "rnd (- (2 ^ k)) \<le> rnd x" and "rnd x \<le> rnd (2 ^ k)"
    using m by (simp_all add: monoD)
  then show ?thesis unfolding up lo by simp
qed

lemma rounds_to_nearest_nonneg:
  "rounds_to_nearest rnd \<Longrightarrow> 0 \<le> x \<Longrightarrow> 0 \<le> rnd x"
  by (metis monoD rounds_to_nearest_def)

lemma rounds_to_nearest_ge_one:
  assumes r: "rounds_to_nearest rnd" and x: "1 \<le> x"
  shows "1 \<le> rnd x"
proof -
  have "rnd (2 ^ 0) = 2 ^ 0" using r unfolding rounds_to_nearest_def by blast
  then have one: "rnd 1 = 1" by simp
  have "rnd 1 \<le> rnd x" using r x by (simp add: rounds_to_nearest_def monoD)
  then show ?thesis using one by simp
qed

lemma rounds_to_nearest_le_one:
  assumes r: "rounds_to_nearest rnd" and x: "x \<le> 1"
  shows "rnd x \<le> 1"
proof -
  have "rnd (2 ^ 0) = 2 ^ 0" using r unfolding rounds_to_nearest_def by blast
  then have one: "rnd 1 = 1" by simp
  have "rnd x \<le> rnd 1" using r x by (simp add: rounds_to_nearest_def monoD)
  then show ?thesis using one by simp
qed

lemma power_two_le_DBL_MAX:
  assumes "k \<le> 1023"
  shows "(2::rat) ^ k \<le> DBL_MAX"
proof -
  have "(2::rat) ^ k \<le> 2 ^ 1023" using assms by (intro power_increasing) simp_all
  also have "(2::rat) ^ 1023 = 2 ^ 52 * 2 ^ 971" by (simp flip: power_add)
  also have "\<dots> \<le> (2 ^ 53 - 1) * 2 ^ 971" by (intro mult_right_mono) simp_all
  finally show ?thesis by (simp add: DBL_MAX_def)
qed

lemma to_float_finite:
  assumes r: "rounds_to_nearest rnd" and k: "k \<le> 1023" and x: "\<bar>x\<bar> \<le> 2 ^ k"
  shows "to_float rnd x = Finite (rnd x)"
proof -
  have b: "\<bar>rnd x\<bar> \<le> 2 ^ k" by (rule rounds_to_nearest_bound[OF r k x])
  have "\<bar>rnd x\<bar> \<le> DBL_MAX" using b power_two_le_DBL_MAX[OF k] by simp
  then have "\<not> DBL_MAX < rnd x" and "\<not> rnd x < - DBL_MAX" by simp_all
  then show ?thesis by (simp add: to_float_def Let_def)
qed

lemma apply_rounding_finite:
  assumes r: "rounds_to_nearest rnd" and z: "\<bar>z\<bar> \<le> 2 ^ 1000"
  shows "\<exists>i. apply_rounding rnd (Finite z) mode = Inr i"
proof -
  have "\<bar>z + 1 / 2\<bar> \<le> \<bar>z\<bar> + 1" by simp
  also have "\<dots> \<le> 2 ^ 1000 + 2 ^ 1000" using z by (simp add: add_mono)
  finally have p: "\<bar>z + 1 / 2\<bar> \<le> 2 ^ 1001" by simp
  have "\<bar>z - 1 / 2\<bar> \<le> \<bar>z\<bar> + 1" by simp
  also have "\<dots> \<le> 2 ^ 1000 + 2 ^ 1000" using z by (simp add: add_mono)
  finally have q: "\<bar>z - 1 / 2\<bar> \<le> 2 ^ 1001" by simp
  have a: "to_float rnd (z + 1 / 2) = Finite (rnd (z + 1 / 2))"
    by (rule to_float_finite[OF r _ p]) simp
  have s: "to_float rnd (z - 1 / 2) = Finite (rnd (z - 1 / 2))"
    by (rule to_float_finite[OF r _ q]) simp
  show ?thesis
    by (cases mode) (simp_all add: half_up_def half_even_def down_def up_def half_down_def
        fl_sub_def a s Let_def)
qed

lemma rate_decimal_finite:
  assumes r: "rounds_to_nearest rnd" and pos: "0 < p" and le: "p \<le> 1000000"
  shows "to_float rnd (p / 100) = Finite (rnd (p / 100))
       \<and> 0 \<le> rnd (p / 100) \<and> rnd (p / 100) \<le> 2 ^ 14"
proof -
  have b: "\<bar>p / 100\<bar> \<le> 2 ^ 14" using pos le by simp
  have f: "to_float rnd (p / 100) = Finite (rnd (p / 100))"
    by (rule to_float_finite[OF r _ b]) simp
  have n: "0 \<le> rnd (p / 100)" using pos by (intro rounds_to_nearest_nonneg[OF r]) simp
  have "\<bar>rnd (p / 100)\<bar> \<le> 2 ^ 14" by (rule rounds_to_nearest_bound[OF r _ b]) simp
  then show ?thesis using f n by simp
qed

lemma units_finite:
  assumes r: "rounds_to_nearest rnd" and m: "\<bar>n\<bar> < 2 ^ 63"
  shows "float_of_int rnd n = Inr (Finite (rnd (of_int n))) \<and> \<bar>rnd (of_int n)\<bar> \<le> 2 ^ 63"
proof -
  have "(2::int) ^ 63 \<le> 2 ^ 1024 - 2 ^ 970" by simp
  then have small: "\<not> 2 ^ 1024 - 2 ^ 970 \<le> \<bar>n\<bar>" using m by linarith
  have "\<bar>of_int n :: rat\<bar> = of_int \<bar>n\<bar>" by simp
  also have "\<dots> \<le> of_int (2 ^ 63)" using m by (intro of_int_le_iff[THEN iffD2]) simp
  finally have b: "\<bar>of_int n :: rat\<bar> \<le> 2 ^ 63" by simp
  have "\<bar>rnd (of_int n)\<bar> \<le> 2 ^ 63" by (rule rounds_to_nearest_bound[OF r _ b]) simp
  then show ?thesis using small by (simp add: float_of_int_def)
qed

lemma product_finite:
  assumes r: "rounds_to_nearest rnd" and x: "\<bar>x\<bar> \<le> 2 ^ 63" and y0: "0 \<le> y" and y: "y \<le> 2 ^ 14"
  shows "to_float rnd (x * y) = Finite (rnd (x * y)) \<and> \<bar>rnd (x * y)\<bar> \<le> 2 ^ 77"
proof -
  have "\<bar>x * y\<bar> = \<bar>x\<bar> * y" using y0 by (simp add: abs_mult)
  also have "\<dots> \<le> 2 ^ 63 * 2 ^ 14" using x y y0 by (intro mult_mono) simp_all
  finally have b: "\<bar>x * y\<bar> \<le> 2 ^ 77" by simp
  have f: "to_float rnd (x * y) = Finite (rnd (x * y))"
    by (rule to_float_finite[OF r _ b]) simp
  have "\<bar>rnd (x * y)\<bar> \<le> 2 ^ 77" by (rule rounds_to_nearest_bound[OF r _ b]) simp
  then show ?thesis using f by simp
qed

lemma add_vat_returns:
  assumes r: "rounds_to_nearest rnd" and m: "\<bar>minor_units m\<bar> < 2 ^ 63"
    and pos: "0 < p" and le: "p \<le> 1000000"
  shows "\<exists>x. add_vat rnd m (Finite p) mode = Inr x"
proof -
  note rd = rate_decimal_finite[OF r pos le]
  note u = units_finite[OF r m]
  note pr = product_finite[OF r conjunct2[OF u] conjunct1[OF conjunct2[OF rd]]
      conjunct2[OF conjunct2[OF rd]]]
  have "\<bar>rnd (rnd (of_int (minor_units m)) * rnd (p / 100))\<bar> \<le> 2 ^ 1000"
    using conjunct2[OF pr] by (rule order_trans) simp
  then obtain i where
    "apply_rounding rnd (Finite (rnd (rnd (of_int (minor_units m)) * rnd (p / 100)))) mode = Inr i"
    using apply_rounding_finite[OF r] by blast
  then show ?thesis
    by (simp add: add_vat_def conjunct1[OF rd] conjunct1[OF u] conjunct1[OF pr] Let_def)
qed

lemma apply_discount_returns:
  assumes r: "rounds_to_nearest rnd" and m: "\<bar>minor_units m\<bar> < 2 ^ 63"
    and pos: "0 < p" and le: "p \<le> 1000000"
  shows "\<exists>x. apply_discount rnd m (Finite p) mode = Inr x"
proof -
  note rd = rate_decimal_finite[OF r pos le]
  note u = units_finite[OF r m]
  note pr = product_finite[OF r conjunct2[OF u] conjunct1[OF conjunct2[OF rd]]
      conjunct2[OF conjunct2[OF rd]]]
  have "\<bar>rnd (rnd (of_int (minor_units m)) * rnd (p / 100))\<bar> \<le> 2 ^ 1000"
    using conjunct2[OF pr] by (rule order_trans) simp
  then obtain i where
    "apply_rounding rnd (Finite (rnd (rnd (of_int (minor_units m)) * rnd (p / 100)))) mode = Inr i"
    using apply_rounding_finite[OF r] by blast
  then show ?thesis
    by (simp add: apply_discount_def conjunct1[OF rd] conjunct1[OF u] conjunct1[OF pr] Let_def)
qed

lemma extract_vat_returns:
  assumes r: "rounds_to_nearest rnd" and m: "\<bar>minor_units m\<bar> < 2 ^ 63"
    and pos: "0 < p" and le: "p \<le> 1000000"
  shows "\<exists>x. extract_vat rnd m (Finite p) mode = Inr x"
proof -
  note rd = rate_decimal_finite[OF r pos le]
  note u = units_finite[OF r m]
  define y where "y = rnd (p / 100)"
  define x where "x = rnd (of_int (minor_units m))"
  have y0: "0 \<le> y" and y14: "y \<le> 2 ^ 14" using rd by (simp_all add: y_def)
  have xb: "\<bar>x\<bar> \<le> 2 ^ 63" using u by (simp add: x_def)
  have db: "\<bar>1 + y\<bar> \<le> 2 ^ 15" using y0 y14 by simp
  have den: "to_float rnd (1 + y) = Finite (rnd (1 + y))"
    by (rule to_float_finite[OF r _ db]) simp
  define d where "d = rnd (1 + y)"
  have d1: "1 \<le> d" unfolding d_def using y0 by (intro rounds_to_nearest_ge_one[OF r]) simp
  have "\<bar>x / d\<bar> = \<bar>x\<bar> / d" using d1 by simp
  also have "\<dots> \<le> \<bar>x\<bar> / 1" using d1 by (intro divide_left_mono) simp_all
  also have "\<dots> = \<bar>x\<bar>" by simp
  also have "\<dots> \<le> 2 ^ 63" by (rule xb)
  finally have qb: "\<bar>x / d\<bar> \<le> 2 ^ 63" .
  have quo: "to_float rnd (x / d) = Finite (rnd (x / d))"
    by (rule to_float_finite[OF r _ qb]) simp
  have "\<bar>rnd (x / d)\<bar> \<le> 2 ^ 63" by (rule rounds_to_nearest_bound[OF r _ qb]) simp
  then have "\<bar>rnd (x / d)\<bar> \<le> 2 ^ 1000" by (rule order_trans) simp
  then obtain i where i: "apply_rounding rnd (Finite (rnd (x / d))) mode = Inr i"
    using apply_rounding_finite[OF r] by blast
  have dn: "d \<noteq> 0" using d1 by simp
  show ?thesis
    using i dn
    by (simp add: extract_vat_def conjunct1[OF rd] conjunct1[OF u] y_def[symmetric]
        x_def[symmetric] den d_def[symmetric] quo Let_def)
qed

lemma float_of_int_overflow:
  "2 ^ 1024 - 2 ^ 970 \<le> \<bar>n\<bar> \<Longrightarrow> float_of_int rnd n = Inl OverflowError"
  by (simp add: float_of_int_def)

lemma vat_operations_overflow:
  assumes big: "2 ^ 1024 - 2 ^ 970 \<le> \<bar>minor_units m\<bar>"
  shows "add_vat rnd m (Finite p) mode = Inl OverflowError"
    and "extract_vat rnd m (Finite p) mode = Inl OverflowError"
    and "apply_discount rnd m (Finite p) mode = Inl OverflowError"
  by (simp_all add: add_vat_def extract_vat_def apply_discount_def
      float_of_int_overflow[OF big] Let_def)

text \<open>
  C6 as stated fails: an amount too large to convert to a float makes each of the three
  operations raise OverflowError instead of returning, here for \<open>10^400\<close> minor units at 22
  percent.
\<close>

theorem vat_overflow_counterexample:
  "add_vat binary64_sample (of_minor (10 ^ 400) EUR) (Finite 22) HALF_EVEN = Inl OverflowError
   \<and> extract_vat binary64_sample (of_minor (10 ^ 400) EUR) (Finite 22) HALF_EVEN
       = Inl OverflowError
   \<and> apply_discount binary64_sample (of_minor (10 ^ 400) EUR) (Finite 22) HALF_EVEN
       = Inl OverflowError"
proof -
  have big: "(2::int) ^ 1024 - 2 ^ 970 \<le> \<bar>minor_units (of_minor (10 ^ 400) EUR)\<bar>"
    by (simp add: of_minor_def)
  show ?thesis
    by (intro conjI vat_operations_overflow[OF big])
qed

text \<open>
  C6, amended. For every Money value \<open>m\<close>, rate \<open>r > 0\<close> and rounding mode: whenever
  \<open>add_vat\<close> returns (net, vat, gross), net is \<open>m\<close> and net + vat == gross; whenever
  \<open>extract_vat\<close> returns (net, vat, gross), gross is \<open>m\<close> and net + vat == gross; whenever
  \<open>apply_discount\<close> returns (discount, discounted), discount + discounted == m. In each case
  one value is rounded and the other is obtained from it by integer addition or subtraction.
  The three operations return whenever the amount fits 64 bits and the rate is at most
  1000000 percent (for a float arithmetic that rounds to nearest), and raise OverflowError
  when the amount is too large to convert to a float (from \<open>2^1024 - 2^970\<close> minor units on).
\<close>

theorem vat_and_discount_sum_exactly:
  assumes "0 < r"
  shows "(\<forall>net vat gross. add_vat rnd m (Finite r) mode = Inr (net, vat, gross) \<longrightarrow>
            net = m
            \<and> (\<exists>s. money_add net vat = Inr s \<and> money_eq s gross)
            \<and> minor_units gross = minor_units net + minor_units vat)
       \<and> (\<forall>net vat gross. extract_vat rnd m (Finite r) mode = Inr (net, vat, gross) \<longrightarrow>
            gross = m
            \<and> (\<exists>s. money_add net vat = Inr s \<and> money_eq s gross)
            \<and> minor_units vat = minor_units gross - minor_units net)
       \<and> (\<forall>discount discounted.
            apply_discount rnd m (Finite r) mode = Inr (discount, discounted) \<longrightarrow>
            (\<exists>s. money_add discount discounted = Inr s \<and> money_eq s m)
            \<and> minor_units discounted = minor_units m - minor_units discount)
       \<and> (rounds_to_nearest rnd \<and> \<bar>minor_units m\<bar> < 2 ^ 63 \<and> r \<le> 1000000 \<longrightarrow>
            (\<exists>x. add_vat rnd m (Finite r) mode = Inr x)
            \<and> (\<exists>x. extract_vat rnd m (Finite r) mode = Inr x)
            \<and> (\<exists>x. apply_discount rnd m (Finite r) mode = Inr x))
       \<and> (2 ^ 1024 - 2 ^ 970 \<le> \<bar>minor_units m\<bar> \<longrightarrow>
            add_vat rnd m (Finite r) mode = Inl OverflowError
            \<and> extract_vat rnd m (Finite r) mode = Inl OverflowError
            \<and> apply_discount rnd m (Finite r) mode = Inl OverflowError)"
proof (intro conjI allI impI)
  fix net vat gross
  assume a: "add_vat rnd m (Finite r) mode = Inr (net, vat, gross)"
  then obtain v where "net = m" "vat = of_minor v (currency m)"
      "gross = of_minor (minor_units m + v) (currency m)"
    by (auto simp: add_vat_def Let_def split: sum.splits)
  then show "net = m" "\<exists>s. money_add net vat = Inr s \<and> money_eq s gross"
      "minor_units gross = minor_units net + minor_units vat"
    by (simp_all add: money_add_def money_eq_def of_minor_def)
next
  fix net vat gross
  assume a: "extract_vat rnd m (Finite r) mode = Inr (net, vat, gross)"
  then obtain v where "gross = m" "net = of_minor v (currency m)"
      "vat = of_minor (minor_units m - v) (currency m)"
    by (auto simp: extract_vat_def Let_def split: sum.splits if_splits)
  then show "gross = m" "\<exists>s. money_add net vat = Inr s \<and> money_eq s gross"
      "minor_units vat = minor_units gross - minor_units net"
    by (simp_all add: money_add_def money_eq_def of_minor_def)
next
  fix discount discounted
  assume a: "apply_discount rnd m (Finite r) mode = Inr (discount, discounted)"
  then obtain v where "discount = of_minor v (currency m)"
      "discounted = of_minor (minor_units m - v) (currency m)"
    by (auto simp: apply_discount_def Let_def split: sum.splits)
  then show "\<exists>s. money_add discount discounted = Inr s \<and> money_eq s m"
      "minor_units discounted = minor_units m - minor_units discount"
    by (simp_all add: money_add_def money_eq_def of_minor_def)
next
  assume h: "rounds_to_nearest rnd \<and> \<bar>minor_units m\<bar> < 2 ^ 63 \<and> r \<le> 1000000"
  then have r: "rounds_to_nearest rnd" and m: "\<bar>minor_units m\<bar> < 2 ^ 63" and le: "r \<le> 1000000"
    by simp_all
  show "\<exists>x. add_vat rnd m (Finite r) mode = Inr x"
    by (rule add_vat_returns[OF r m assms le])
  show "\<exists>x. extract_vat rnd m (Finite r) mode = Inr x"
    by (rule extract_vat_returns[OF r m assms le])
  show "\<exists>x. apply_discount rnd m (Finite r) mode = Inr x"
    by (rule apply_discount_returns[OF r m assms le])
next
  assume big: "2 ^ 1024 - 2 ^ 970 \<le> \<bar>minor_units m\<bar>"
  show "add_vat rnd m (Finite r) mode = Inl OverflowError"
    by (rule vat_operations_overflow(1)[OF big])
  show "extract_vat rnd m (Finite r) mode = Inl OverflowError"
    by (rule vat_operations_overflow(2)[OF big])
  show "apply_discount rnd m (Finite r) mode = Inl OverflowError"
    by (rule vat_operations_overflow(3)[OF big])
qed

lemma rounds_to_nearest_exact: "rounds_to_nearest (\<lambda>x. x)"
  by (simp add: rounds_to_nearest_def mono_def)

theorem vat_and_discount_sum_exactly_witness:
  "(0::rat) < 22
   \<and> rounds_to_nearest (\<lambda>x. x)
   \<and> add_vat (\<lambda>x. x) (of_minor 999 EUR) (Finite 22) HALF_EVEN
       = Inr (of_minor 999 EUR, of_minor 220 EUR, of_minor 1219 EUR)
   \<and> (\<exists>s. money_add (of_minor 999 EUR) (of_minor 220 EUR) = Inr s
          \<and> money_eq s (of_minor 1219 EUR))
   \<and> (\<exists>x. extract_vat (\<lambda>x. x) (of_minor 999 EUR) (Finite 22) HALF_EVEN = Inr x)
   \<and> (\<exists>x. apply_discount (\<lambda>x. x) (of_minor 999 EUR) (Finite 22) HALF_EVEN = Inr x)
   \<and> add_vat (\<lambda>x. x) (of_minor (2 ^ 1024) EUR) (Finite 22) HALF_EVEN = Inl OverflowError"
proof -
  have h: "(0::rat) < 22" by simp
  have e: "rounds_to_nearest (\<lambda>x. x)" by (rule rounds_to_nearest_exact)
  have fl: "\<lfloor>10989 / 50 :: rat\<rfloor> = 219" by (simp add: rat_rounding_simps)
  have v: "add_vat (\<lambda>x. x) (of_minor 999 EUR) (Finite 22) HALF_EVEN
       = Inr (of_minor 999 EUR, of_minor 220 EUR, of_minor 1219 EUR)"
    by (simp add: add_vat_def float_of_int_def to_float_def DBL_MAX_def half_even_def
        of_minor_def Let_def fl)
  note t = vat_and_discount_sum_exactly[OF h, where rnd = "\<lambda>x. x"
      and m = "of_minor 999 EUR" and mode = HALF_EVEN]
  have idt: "\<exists>s. money_add (of_minor 999 EUR) (of_minor 220 EUR) = Inr s
          \<and> money_eq s (of_minor 1219 EUR)"
    using t v by blast
  have tot: "(\<exists>x. extract_vat (\<lambda>x. x) (of_minor 999 EUR) (Finite 22) HALF_EVEN = Inr x)
      \<and> (\<exists>x. apply_discount (\<lambda>x. x) (of_minor 999 EUR) (Finite 22) HALF_EVEN = Inr x)"
    using t e by (simp add: of_minor_def)
  have ovf: "add_vat (\<lambda>x. x) (of_minor (2 ^ 1024) EUR) (Finite 22) HALF_EVEN = Inl OverflowError"
    using vat_and_discount_sum_exactly[OF h, where rnd = "\<lambda>x. x"
      and m = "of_minor (2 ^ 1024) EUR" and mode = HALF_EVEN]
    by (simp add: of_minor_def)
  show ?thesis using h e v idt tot ovf by blast
qed

lemma foldl_keep_larger:
  fixes x :: rat
  shows "x \<le> foldl (\<lambda>best w. if best < w then w else best) x xs
       \<and> (\<forall>w \<in> set xs. w \<le> foldl (\<lambda>best w. if best < w then w else best) x xs)
       \<and> foldl (\<lambda>best w. if best < w then w else best) x xs \<in> set (x # xs)"
proof (induction xs arbitrary: x)
  case Nil
  then show ?case by simp
next
  case (Cons y ys)
  show ?case using Cons.IH[of "if x < y then y else x"] by (auto split: if_splits)
qed

lemma foldl_keep_larger_float:
  "foldl (\<lambda>best w. if fl_lt best w then w else best) (Finite x) (map Finite xs)
     = Finite (foldl (\<lambda>best w. if best < w then w else best) x xs)"
  by (induction xs arbitrary: x) simp_all

lemma py_max_eq: "ws \<noteq> [] \<Longrightarrow> py_max (map Finite ws) = Inr (Finite (Max (set ws)))"
proof (cases ws)
  case Nil
  assume "ws \<noteq> []"
  with Nil show ?thesis by simp
next
  case (Cons x xs)
  let ?r = "foldl (\<lambda>best w. if best < w then w else best) x xs"
  have "Max (set (x # xs)) = ?r"
    using foldl_keep_larger[of x xs] by (intro Max_eqI) auto
  then show ?thesis using Cons by (simp add: foldl_keep_larger_float del: Max_insert set_simps)
qed

lemma py_index_first:
  "x \<in> set xs \<Longrightarrow>
   \<exists>k. py_index xs x = Inr k \<and> k < length xs \<and> xs ! k = x \<and> (\<forall>j<k. xs ! j \<noteq> x)"
proof (induction xs)
  case Nil
  then show ?case by simp
next
  case (Cons y ys)
  show ?case
  proof (cases "y = x")
    case True
    then show ?thesis by simp
  next
    case False
    then have "x \<in> set ys" using Cons.prems by simp
    then obtain k where k: "py_index ys x = Inr k" "k < length ys" "ys ! k = x" "\<forall>j<k. ys ! j \<noteq> x"
      using Cons.IH by blast
    have "\<forall>j<Suc k. (y # ys) ! j \<noteq> x"
      using False k(4) by (auto simp: nth_Cons split: nat.splits)
    then show ?thesis using False k by auto
  qed
qed

lemma sum_list_bump:
  "k < length (xs :: int list) \<Longrightarrow> sum_list (xs[k := xs ! k + d]) = sum_list xs + d"
proof (induction xs arbitrary: k)
  case Nil
  then show ?case by simp
next
  case (Cons a xs)
  then show ?case by (cases k) simp_all
qed

lemma map_err_nth:
  "map_err f xs = Inr ys \<Longrightarrow> length ys = length xs \<and> (\<forall>i<length xs. f (xs ! i) = Inr (ys ! i))"
proof (induction xs arbitrary: ys)
  case Nil
  then show ?case by simp
next
  case (Cons x xs)
  from Cons.prems obtain y zs where y: "f x = Inr y" and zs: "map_err f xs = Inr zs"
    and ys: "ys = y # zs"
    by (auto split: sum.splits)
  show ?case using Cons.IH[OF zs] y ys by (auto simp: nth_Cons split: nat.splits)
qed

lemma map_err_map:
  "(\<forall>x \<in> set xs. f x = Inr (g x)) \<Longrightarrow> map_err f xs = Inr (map g xs)"
  by (induction xs) simp_all

lemma map_err_first_fails:
  "xs \<noteq> [] \<Longrightarrow> (\<forall>x \<in> set xs. f x = Inl e) \<Longrightarrow> map_err f xs = Inl e"
  by (cases xs) simp_all

lemma fl_div_defined:
  "tw \<noteq> Finite 0 \<Longrightarrow> \<exists>p. fl_div rnd a tw = Inr p"
  by (cases tw; cases a) auto

lemma map_err_total:
  "(\<forall>x \<in> set xs. \<exists>y. f x = Inr y) \<Longrightarrow> \<exists>ys. map_err f xs = Inr ys"
proof (induction xs)
  case Nil
  then show ?case by simp
next
  case (Cons x xs)
  from Cons.prems obtain y where y: "f x = Inr y" by auto
  from Cons obtain ys where ys: "map_err f xs = Inr ys" by auto
  show ?case by (simp add: y ys)
qed

lemma map_err_staged:
  "map_err f xs = Inr ys \<Longrightarrow>
   map_err g ys = map_err (\<lambda>x. case f x of Inl e \<Rightarrow> Inl e | Inr y \<Rightarrow> g y) xs"
proof (induction xs arbitrary: ys)
  case Nil
  then show ?case by simp
next
  case (Cons x xs)
  from Cons.prems obtain y zs where y: "f x = Inr y" and zs: "map_err f xs = Inr zs"
    and ys: "ys = y # zs"
    by (auto split: sum.splits)
  show ?case using Cons.IH[OF zs] by (simp add: y ys split: sum.splits)
qed

lemma map_err_after_map:
  "map_err g (map h xs) = map_err (\<lambda>x. g (h x)) xs"
  by (induction xs) (simp_all split: sum.splits)

lemma distribute_weighted_cases:
  assumes ne: "ws \<noteq> []"
    and nonneg: "\<forall>w \<in> set ws. 0 \<le> w"
    and len: "int (length ws) \<le> MAX_DISTRIBUTION_PARTS"
    and tw: "fsum (map Finite ws) \<noteq> Finite 0"
  shows "(\<exists>e. map_err (weighted_share rnd m (fsum (map Finite ws)) rounding) (map Finite ws)
               = Inl e
            \<and> distribute_weighted rnd fsum m (map Finite ws) rounding = Inl e)
       \<or> (\<exists>shares k.
             map_err (weighted_share rnd m (fsum (map Finite ws)) rounding) (map Finite ws)
               = Inr shares
           \<and> k < length ws \<and> ws ! k = Max (set ws) \<and> (\<forall>j<k. ws ! j \<noteq> Max (set ws))
           \<and> distribute_weighted rnd fsum m (map Finite ws) rounding
               = Inr (map (\<lambda>r. of_minor r (currency m))
                       (shares[k := shares ! k + (minor_units m - sum_list shares)])))"
proof -
  let ?W = "map Finite ws"
  let ?tw = "fsum ?W"
  have g1: "?W \<noteq> []" using ne by simp
  have g2: "\<not> MAX_DISTRIBUTION_PARTS < int (length ?W)" using len by simp
  have g3: "\<not> list_ex (\<lambda>w. fl_lt w (Finite 0)) ?W"
    using nonneg by (auto simp: list_ex_iff)
  have "\<forall>w \<in> set ?W. \<exists>p. fl_div rnd w ?tw = Inr p"
    using fl_div_defined[OF tw] by blast
  then have "\<exists>ps. map_err (\<lambda>w. fl_div rnd w ?tw) ?W = Inr ps" by (rule map_err_total)
  then obtain ps where ps: "map_err (\<lambda>w. fl_div rnd w ?tw) ?W = Inr ps" ..
  have lps: "length ps = length ?W" using map_err_nth[OF ps] by simp
  then have psne: "ps \<noteq> []" using ne by auto
  have "Max (set ws) \<in> set ws" using ne by (intro Max_in) simp_all
  then have "Finite (Max (set ws)) \<in> set ?W" by simp
  then have "\<exists>k. py_index ?W (Finite (Max (set ws))) = Inr k \<and> k < length ?W
      \<and> ?W ! k = Finite (Max (set ws)) \<and> (\<forall>j<k. ?W ! j \<noteq> Finite (Max (set ws)))"
    by (rule py_index_first)
  then obtain k where kk: "py_index ?W (Finite (Max (set ws))) = Inr k \<and> k < length ?W
      \<and> ?W ! k = Finite (Max (set ws)) \<and> (\<forall>j<k. ?W ! j \<noteq> Finite (Max (set ws)))" ..
  have k1: "py_index ?W (Finite (Max (set ws))) = Inr k" using kk by (rule conjunct1)
  have k2: "k < length ws" using kk by simp
  have k3: "ws ! k = Max (set ws)" using kk k2 by simp
  have k4: "\<forall>j<k. ws ! j \<noteq> Max (set ws)"
  proof (intro allI impI)
    fix j assume j: "j < k"
    then have "?W ! j \<noteq> Finite (Max (set ws))" using kk by blast
    moreover have "j < length ws" using j k2 by simp
    ultimately show "ws ! j \<noteq> Max (set ws)" by simp
  qed
  have mx: "py_max ?W = Inr (Finite (Max (set ws)))" by (rule py_max_eq[OF ne])
  show ?thesis
  proof (cases "float_of_int rnd (minor_units m)")
    case (Inl e)
    have "\<forall>p \<in> set ps. (case float_of_int rnd (minor_units m) of
                            Inl e \<Rightarrow> Inl e
                          | Inr units \<Rightarrow> Inr (fl_mul rnd units p)) = Inl e"
      by (simp add: Inl)
    then have stage2: "map_err (\<lambda>p. case float_of_int rnd (minor_units m) of
                            Inl e \<Rightarrow> Inl e
                          | Inr units \<Rightarrow> Inr (fl_mul rnd units p)) ps = Inl e"
      by (rule map_err_first_fails[OF psne])
    have dw: "distribute_weighted rnd fsum m ?W rounding = Inl e"
      unfolding distribute_weighted_def Let_def
      by (simp only: g1 g2 g3 tw ps stage2 if_False sum.case)
    have "\<forall>w \<in> set ?W. weighted_share rnd m ?tw rounding w = Inl e"
    proof
      fix w assume "w \<in> set ?W"
      obtain p where "fl_div rnd w ?tw = Inr p" using fl_div_defined[OF tw] by blast
      then show "weighted_share rnd m ?tw rounding w = Inl e"
        by (simp add: weighted_share_def Inl split: sum.splits)
    qed
    then have "map_err (weighted_share rnd m ?tw rounding) ?W = Inl e"
      by (rule map_err_first_fails[OF g1])
    then show ?thesis using dw by blast
  next
    case (Inr units)
    have "\<forall>p \<in> set ps. (case float_of_int rnd (minor_units m) of
                            Inl e \<Rightarrow> Inl e
                          | Inr units \<Rightarrow> Inr (fl_mul rnd units p)) = Inr (fl_mul rnd units p)"
      by (simp add: Inr)
    then have stage2: "map_err (\<lambda>p. case float_of_int rnd (minor_units m) of
                            Inl e \<Rightarrow> Inl e
                          | Inr units \<Rightarrow> Inr (fl_mul rnd units p)) ps
                         = Inr (map (fl_mul rnd units) ps)"
      by (rule map_err_map)
    have share: "weighted_share rnd m ?tw rounding
                   = (\<lambda>w. case fl_div rnd w ?tw of
                            Inl e \<Rightarrow> Inl e
                          | Inr p \<Rightarrow> apply_rounding rnd (fl_mul rnd units p) rounding)"
      by (rule ext) (simp add: weighted_share_def Inr split: sum.splits)
    have "map_err (\<lambda>a. apply_rounding rnd a rounding) (map (fl_mul rnd units) ps)
            = map_err (\<lambda>p. apply_rounding rnd (fl_mul rnd units p) rounding) ps"
      by (rule map_err_after_map)
    also have "\<dots> = map_err (weighted_share rnd m ?tw rounding) ?W"
      unfolding share by (rule map_err_staged[OF ps])
    finally have stage3:
      "map_err (\<lambda>a. apply_rounding rnd a rounding) (map (fl_mul rnd units) ps)
         = map_err (weighted_share rnd m ?tw rounding) ?W" .
    show ?thesis
    proof (cases "map_err (weighted_share rnd m ?tw rounding) ?W")
      case (Inl e)
      have "distribute_weighted rnd fsum m ?W rounding = Inl e"
        unfolding distribute_weighted_def Let_def
        by (simp only: g1 g2 g3 tw ps stage2 stage3 Inl if_False sum.case)
      then show ?thesis using Inl by blast
    next
      case shares: (Inr shares)
      have same: "minor_units m - sum_list shares = 0 \<Longrightarrow>
                  shares[k := shares ! k + (minor_units m - sum_list shares)] = shares"
        by simp
      have "distribute_weighted rnd fsum m ?W rounding =
          (if minor_units m - sum_list shares \<noteq> 0
           then Inr (map (\<lambda>r. of_minor r (currency m))
                      (shares[k := shares ! k + (minor_units m - sum_list shares)]))
           else Inr (map (\<lambda>r. of_minor r (currency m)) shares))"
        unfolding distribute_weighted_def Let_def
        by (simp only: g1 g2 g3 tw ps stage2 stage3 shares mx k1 if_False sum.case)
      then have "distribute_weighted rnd fsum m ?W rounding
               = Inr (map (\<lambda>r. of_minor r (currency m))
                       (shares[k := shares ! k + (minor_units m - sum_list shares)]))"
        using same by (cases "minor_units m - sum_list shares = 0") simp_all
      then show ?thesis using shares k2 k3 k4 by blast
    qed
  qed
qed

lemma weighted_share_returns:
  assumes r: "rounds_to_nearest rnd" and m: "\<bar>minor_units m\<bar> < 2 ^ 63"
    and w0: "0 \<le> w" and wt: "w \<le> t" and t0: "t \<noteq> 0"
  shows "\<exists>s. weighted_share rnd m (Finite t) rounding (Finite w) = Inr s"
proof -
  have tpos: "0 < t" using w0 wt t0 by simp
  have q0: "0 \<le> w / t" using w0 tpos by simp
  have q1: "w / t \<le> 1" using wt tpos by simp
  have qb: "\<bar>w / t\<bar> \<le> 2 ^ 0" using q0 q1 by simp
  have qf: "to_float rnd (w / t) = Finite (rnd (w / t))"
    by (rule to_float_finite[OF r _ qb]) simp
  have p0: "0 \<le> rnd (w / t)" by (rule rounds_to_nearest_nonneg[OF r q0])
  have "rnd (w / t) \<le> 1" by (rule rounds_to_nearest_le_one[OF r q1])
  then have p1: "rnd (w / t) \<le> 2 ^ 14" by simp
  note u = units_finite[OF r m]
  note pr = product_finite[OF r conjunct2[OF u] p0 p1]
  have "\<bar>rnd (rnd (of_int (minor_units m)) * rnd (w / t))\<bar> \<le> 2 ^ 1000"
    using conjunct2[OF pr] by simp
  then have "\<exists>s. apply_rounding rnd
                (Finite (rnd (rnd (of_int (minor_units m)) * rnd (w / t)))) rounding = Inr s"
    by (rule apply_rounding_finite[OF r])
  then show ?thesis
    using t0 by (simp add: weighted_share_def qf conjunct1[OF u] conjunct1[OF pr])
qed

lemma weighted_share_overflow:
  assumes big: "2 ^ 1024 - 2 ^ 970 \<le> \<bar>minor_units m\<bar>" and tw: "tw \<noteq> Finite 0"
  shows "weighted_share rnd m tw rounding w = Inl OverflowError"
proof -
  obtain p where "fl_div rnd w tw = Inr p" using fl_div_defined[OF tw] by blast
  then show ?thesis by (simp add: weighted_share_def float_of_int_overflow[OF big])
qed

lemma distribute_weighted_overflow:
  assumes ne: "ws \<noteq> []"
    and nonneg: "\<forall>w \<in> set ws. 0 \<le> w"
    and len: "int (length ws) \<le> MAX_DISTRIBUTION_PARTS"
    and tw: "fsum (map Finite ws) \<noteq> Finite 0"
    and big: "2 ^ 1024 - 2 ^ 970 \<le> \<bar>minor_units m\<bar>"
  shows "distribute_weighted rnd fsum m (map Finite ws) rounding = Inl OverflowError"
proof -
  have "\<forall>w \<in> set (map Finite ws).
          weighted_share rnd m (fsum (map Finite ws)) rounding w = Inl OverflowError"
    using weighted_share_overflow[OF big tw] by blast
  then have "map_err (weighted_share rnd m (fsum (map Finite ws)) rounding) (map Finite ws)
               = Inl OverflowError"
    using ne by (intro map_err_first_fails) simp_all
  then show ?thesis
    using distribute_weighted_cases[where fsum = fsum and ws = ws and rnd = rnd and m = m
        and rounding = rounding, OF ne nonneg len tw]
    by auto
qed

text \<open>
  C8 as stated fails. The shares are rounded from float products, not from the exact
  quotients: 85 cents over the weights 6 and 11 with mode UP has the exact shares 30 and 55
  (no residual), but \<open>6 / 17\<close> rounds up in binary64, \<open>85 * (6 / 17)\<close> is
  \<open>30.000000000000004\<close>, its ceiling is 31, and the residual \<open>-1\<close> goes to the larger
  weight: the code returns 31 and 54. And the call does not return for every Money value:
  an amount of \<open>10 ^ 400\<close> minor units cannot be converted to a float and the call raises
  OverflowError.
\<close>

theorem weighted_share_float_counterexample:
  "distribute_weighted binary64_sample (sequential_sum binary64_sample) (of_minor 85 EUR)
       [Finite 6, Finite 11] UP
     = Inr [of_minor 31 EUR, of_minor 54 EUR]
   \<and> exact_share (of_minor 85 EUR) [6, 11] UP 6 = Inr 30
   \<and> exact_share (of_minor 85 EUR) [6, 11] UP 11 = Inr 55
   \<and> distribute_weighted binary64_sample (sequential_sum binary64_sample)
       (of_minor (10 ^ 400) EUR) [Finite 1] HALF_EVEN
     = Inl OverflowError"
proof -
  have s: "sequential_sum binary64_sample [Finite 6, Finite 11] = Finite 17"
    by (simp add: sequential_sum_def binary64_sample_def to_float_def DBL_MAX_def Let_def)
  have p1: "fl_div binary64_sample (Finite 6) (Finite 17)
              = Inr (Finite (6358023003346583 / 18014398509481984))"
    by (simp add: binary64_sample_def to_float_def DBL_MAX_def Let_def)
  have p2: "fl_div binary64_sample (Finite 11) (Finite 17)
              = Inr (Finite (5828187753067701 / 9007199254740992))"
    by (simp add: binary64_sample_def to_float_def DBL_MAX_def Let_def)
  have u: "float_of_int binary64_sample (minor_units (of_minor 85 EUR)) = Inr (Finite 85)"
    by (simp add: float_of_int_def binary64_sample_def of_minor_def)
  have r1: "fl_mul binary64_sample (Finite 85) (Finite (6358023003346583 / 18014398509481984))
              = Finite (8444249301319681 / 281474976710656)"
    by (simp add: binary64_sample_def to_float_def DBL_MAX_def Let_def)
  have r2: "fl_mul binary64_sample (Finite 85) (Finite (5828187753067701 / 9007199254740992))
              = Finite 55"
    by (simp add: binary64_sample_def to_float_def DBL_MAX_def Let_def)
  have c1: "apply_rounding binary64_sample (Finite (8444249301319681 / 281474976710656)) UP
              = Inr 31"
    by (simp add: up_def rat_rounding_simps)
  have c2: "apply_rounding binary64_sample (Finite 55) UP = Inr 55"
    by (simp add: up_def)
  have a: "distribute_weighted binary64_sample (sequential_sum binary64_sample)
             (of_minor 85 EUR) [Finite 6, Finite 11] UP
           = Inr [of_minor 31 EUR, of_minor 54 EUR]"
    unfolding distribute_weighted_def Let_def s
    by (simp add: MAX_DISTRIBUTION_PARTS_def p1 p2 u r1 r2 c1 c2 del: fl_div.simps fl_mul.simps
        apply_rounding.simps)
      (simp add: of_minor_def)
  have e1: "exact_share (of_minor 85 EUR) [6, 11] UP 6 = Inr 30"
    by (simp add: exact_share_def of_minor_def up_def)
  have e2: "exact_share (of_minor 85 EUR) [6, 11] UP 11 = Inr 55"
    by (simp add: exact_share_def of_minor_def up_def)
  have big: "(2::int) ^ 1024 - 2 ^ 970 \<le> \<bar>minor_units (of_minor (10 ^ 400) EUR)\<bar>"
    by (simp add: of_minor_def)
  have tw: "sequential_sum binary64_sample (map Finite [1]) \<noteq> Finite 0"
    by (simp add: sequential_sum_def binary64_sample_def to_float_def DBL_MAX_def Let_def)
  have "distribute_weighted binary64_sample (sequential_sum binary64_sample)
          (of_minor (10 ^ 400) EUR) (map Finite [1]) HALF_EVEN = Inl OverflowError"
    by (rule distribute_weighted_overflow[where fsum = "sequential_sum binary64_sample"
          and ws = "[1]", OF _ _ _ tw big])
      (simp_all add: MAX_DISTRIBUTION_PARTS_def)
  then have o: "distribute_weighted binary64_sample (sequential_sum binary64_sample)
          (of_minor (10 ^ 400) EUR) [Finite 1] HALF_EVEN = Inl OverflowError"
    by simp
  show ?thesis by (intro conjI a e1 e2 o)
qed

text \<open>
  C8, amended. For every Money value \<open>m\<close> and every non-empty list of at most 10000
  non-negative finite float weights whose float sum is not zero:
  whenever \<open>distribute_weighted\<close> returns, it returns one part per weight, all of \<open>m\<close>'s
  currency; part \<open>i\<close> is the share the code computes in floating point for weight \<open>i\<close>
  (the float product of the amount and the float quotient weight / sum, rounded under the
  chosen mode), except that the part at the first occurrence of the largest weight also
  receives the residual (minor_units minus the sum of the shares); the parts sum to \<open>m\<close>
  exactly. The call returns when the amount is below \<open>2^63\<close> in magnitude and the sum of
  the weights is a finite float no smaller than each weight (rounding being monotone and
  exact on the powers of two); it raises OverflowError when the amount is
  \<open>2^1024 - 2^970\<close> or more in magnitude.
\<close>

theorem distribute_weighted_exact:
  assumes ne: "ws \<noteq> []"
    and nonneg: "\<forall>w \<in> set ws. 0 \<le> w"
    and len: "int (length ws) \<le> MAX_DISTRIBUTION_PARTS"
    and tw: "fsum (map Finite ws) \<noteq> Finite 0"
  shows "(\<forall>parts. distribute_weighted rnd fsum m (map Finite ws) rounding = Inr parts \<longrightarrow>
            (\<exists>shares k. length parts = length ws \<and> length shares = length ws
               \<and> (\<forall>i<length ws.
                     weighted_share rnd m (fsum (map Finite ws)) rounding (Finite (ws ! i))
                       = Inr (shares ! i))
               \<and> k < length ws \<and> ws ! k = Max (set ws) \<and> (\<forall>j<k. ws ! j \<noteq> Max (set ws))
               \<and> (\<forall>i<length ws. currency (parts ! i) = currency m
                     \<and> minor_units (parts ! i)
                         = shares ! i + (if i = k then minor_units m - sum_list shares else 0))
               \<and> money_sum (zero (currency m)) parts = Inr m))
       \<and> (rounds_to_nearest rnd \<and> \<bar>minor_units m\<bar> < 2 ^ 63
           \<and> (\<exists>t. fsum (map Finite ws) = Finite t \<and> (\<forall>w \<in> set ws. w \<le> t)) \<longrightarrow>
            (\<exists>parts. distribute_weighted rnd fsum m (map Finite ws) rounding = Inr parts))
       \<and> (2 ^ 1024 - 2 ^ 970 \<le> \<bar>minor_units m\<bar> \<longrightarrow>
            distribute_weighted rnd fsum m (map Finite ws) rounding = Inl OverflowError)"
proof (intro conjI allI impI)
  fix parts
  assume ret: "distribute_weighted rnd fsum m (map Finite ws) rounding = Inr parts"
  let ?tw = "fsum (map Finite ws)"
  from distribute_weighted_cases[where fsum = fsum and ws = ws and rnd = rnd and m = m
      and rounding = rounding, OF ne nonneg len tw] ret
  have "\<exists>shares k.
          map_err (weighted_share rnd m ?tw rounding) (map Finite ws) = Inr shares
        \<and> k < length ws \<and> ws ! k = Max (set ws) \<and> (\<forall>j<k. ws ! j \<noteq> Max (set ws))
        \<and> distribute_weighted rnd fsum m (map Finite ws) rounding
            = Inr (map (\<lambda>r. of_minor r (currency m))
                    (shares[k := shares ! k + (minor_units m - sum_list shares)]))"
    by auto
  then obtain shares k where
    sh: "map_err (weighted_share rnd m ?tw rounding) (map Finite ws) = Inr shares"
    and k2: "k < length ws" and k3: "ws ! k = Max (set ws)"
    and k4: "\<forall>j<k. ws ! j \<noteq> Max (set ws)"
    and res: "distribute_weighted rnd fsum m (map Finite ws) rounding
            = Inr (map (\<lambda>r. of_minor r (currency m))
                    (shares[k := shares ! k + (minor_units m - sum_list shares)]))"
    by (elim exE conjE) (rule that, assumption+)
  define diff where "diff = minor_units m - sum_list shares"
  define final where "final = shares[k := shares ! k + diff]"
  have parts: "parts = map (\<lambda>r. of_minor r (currency m)) final"
    using ret res by (simp add: final_def diff_def)
  note nth = map_err_nth[OF sh]
  have lens: "length shares = length ws" using nth by simp
  have lenf: "length final = length ws" by (simp add: final_def lens)
  have lenp: "length parts = length ws" by (simp add: parts lenf)
  have each: "\<forall>i<length ws.
      weighted_share rnd m ?tw rounding (Finite (ws ! i)) = Inr (shares ! i)"
    using nth by simp
  have units: "\<forall>i<length ws. currency (parts ! i) = currency m
                \<and> minor_units (parts ! i)
                    = shares ! i + (if i = k then minor_units m - sum_list shares else 0)"
  proof (intro allI impI)
    fix i assume i: "i < length ws"
    have f: "final ! i = shares ! i + (if i = k then diff else 0)"
      using i lens by (simp add: final_def nth_list_update)
    have p: "parts ! i = of_minor (final ! i) (currency m)"
      using i lenf by (simp add: parts)
    show "currency (parts ! i) = currency m
                \<and> minor_units (parts ! i)
                    = shares ! i + (if i = k then minor_units m - sum_list shares else 0)"
      unfolding p f diff_def by (simp add: of_minor_def)
  qed
  have "sum_list final = sum_list shares + diff"
    unfolding final_def using k2 lens by (intro sum_list_bump) simp
  then have "sum_list final = minor_units m" by (simp add: diff_def)
  moreover have "map minor_units parts = final"
    by (simp add: parts comp_def of_minor_def)
  ultimately have whole: "sum_list (map minor_units parts) = minor_units m" by simp
  have cur0: "\<forall>p \<in> set parts. currency p = currency (zero (currency m))"
    by (auto simp: parts of_minor_def zero_def)
  have total: "money_sum (zero (currency m)) parts = Inr m"
    using money_sum_same_currency[OF cur0] whole by (simp add: zero_def of_minor_def)
  from lenp lens each k2 k3 k4 units total
  show "\<exists>shares k. length parts = length ws \<and> length shares = length ws
               \<and> (\<forall>i<length ws.
                     weighted_share rnd m (fsum (map Finite ws)) rounding (Finite (ws ! i))
                       = Inr (shares ! i))
               \<and> k < length ws \<and> ws ! k = Max (set ws) \<and> (\<forall>j<k. ws ! j \<noteq> Max (set ws))
               \<and> (\<forall>i<length ws. currency (parts ! i) = currency m
                     \<and> minor_units (parts ! i)
                         = shares ! i + (if i = k then minor_units m - sum_list shares else 0))
               \<and> money_sum (zero (currency m)) parts = Inr m"
    by (intro exI[of _ shares] exI[of _ k] conjI)
next
  assume a: "rounds_to_nearest rnd \<and> \<bar>minor_units m\<bar> < 2 ^ 63
           \<and> (\<exists>t. fsum (map Finite ws) = Finite t \<and> (\<forall>w \<in> set ws. w \<le> t))"
  then have r: "rounds_to_nearest rnd" and small: "\<bar>minor_units m\<bar> < 2 ^ 63" by simp_all
  from a obtain t where t: "fsum (map Finite ws) = Finite t" and le: "\<forall>w \<in> set ws. w \<le> t"
    by blast
  have t0: "t \<noteq> 0" using tw t by simp
  have "\<forall>x \<in> set (map Finite ws). \<exists>s. weighted_share rnd m (Finite t) rounding x = Inr s"
  proof
    fix x assume "x \<in> set (map Finite ws)"
    then obtain w where w: "w \<in> set ws" and x: "x = Finite w" by auto
    show "\<exists>s. weighted_share rnd m (Finite t) rounding x = Inr s"
      unfolding x using nonneg le w by (intro weighted_share_returns[OF r small _ _ t0]) auto
  qed
  then have "\<exists>shares. map_err (weighted_share rnd m (Finite t) rounding) (map Finite ws)
                = Inr shares"
    by (rule map_err_total)
  then show "\<exists>parts. distribute_weighted rnd fsum m (map Finite ws) rounding = Inr parts"
    using distribute_weighted_cases[where fsum = fsum and ws = ws and rnd = rnd and m = m
      and rounding = rounding, OF ne nonneg len tw]
    by (auto simp: t)
next
  assume "2 ^ 1024 - 2 ^ 970 \<le> \<bar>minor_units m\<bar>"
  then show "distribute_weighted rnd fsum m (map Finite ws) rounding = Inl OverflowError"
    by (rule distribute_weighted_overflow[where fsum = fsum and ws = ws, OF ne nonneg len tw])
qed

theorem distribute_weighted_exact_witness:
  "(\<exists>parts. distribute_weighted (\<lambda>x. x) (sequential_sum (\<lambda>x. x)) (of_minor 100 EUR)
               (map Finite [1, 1, 1]) HALF_EVEN = Inr parts
          \<and> parts = [of_minor 34 EUR, of_minor 33 EUR, of_minor 33 EUR]
          \<and> money_sum (zero EUR) parts = Inr (of_minor 100 EUR))
   \<and> distribute_weighted (\<lambda>x. x) (sequential_sum (\<lambda>x. x)) (of_minor (2 ^ 1024) EUR)
       (map Finite [1, 1, 1]) HALF_EVEN = Inl OverflowError"
proof -
  have ne: "[1, 1, 1 :: rat] \<noteq> []" by simp
  have nonneg: "\<forall>w \<in> set [1, 1, 1 :: rat]. 0 \<le> w" by simp
  have len: "int (length [1, 1, 1 :: rat]) \<le> MAX_DISTRIBUTION_PARTS"
    by (simp add: MAX_DISTRIBUTION_PARTS_def)
  have s: "sequential_sum (\<lambda>x. x) [Finite 1, Finite 1, Finite 1] = Finite 3"
    by (simp add: sequential_sum_def to_float_def DBL_MAX_def Let_def)
  have tw: "sequential_sum (\<lambda>x. x) (map Finite [1, 1, 1]) \<noteq> Finite 0"
    by (simp add: s)
  note t1 = distribute_weighted_exact[where fsum = "sequential_sum (\<lambda>x. x)"
      and ws = "[1, 1, 1]" and rnd = "\<lambda>x. x" and m = "of_minor 100 EUR"
      and rounding = HALF_EVEN, OF ne nonneg len tw]
  note t2 = distribute_weighted_exact[where fsum = "sequential_sum (\<lambda>x. x)"
      and ws = "[1, 1, 1]" and rnd = "\<lambda>x. x" and m = "of_minor (2 ^ 1024) EUR"
      and rounding = HALF_EVEN, OF ne nonneg len tw]
  have fl: "\<lfloor>100 / 3 :: rat\<rfloor> = 33" by (simp add: rat_rounding_simps)
  have sh: "weighted_share (\<lambda>x. x) (of_minor 100 EUR) (Finite 3) HALF_EVEN (Finite 1) = Inr 33"
    by (simp add: weighted_share_def float_of_int_def to_float_def DBL_MAX_def half_even_def
        of_minor_def Let_def fl)
  have "\<exists>parts. distribute_weighted (\<lambda>x. x) (sequential_sum (\<lambda>x. x)) (of_minor 100 EUR)
               (map Finite [1, 1, 1]) HALF_EVEN = Inr parts"
    using t1 rounds_to_nearest_exact by (simp add: s of_minor_def)
  then obtain parts where ret: "distribute_weighted (\<lambda>x. x) (sequential_sum (\<lambda>x. x))
      (of_minor 100 EUR) (map Finite [1, 1, 1]) HALF_EVEN = Inr parts" ..
  from t1 ret have "\<exists>shares k. length parts = length [1, 1, 1 :: rat]
       \<and> length shares = length [1, 1, 1 :: rat]
       \<and> (\<forall>i<length [1, 1, 1 :: rat].
             weighted_share (\<lambda>x. x) (of_minor 100 EUR)
                 (sequential_sum (\<lambda>x. x) (map Finite [1, 1, 1])) HALF_EVEN
                 (Finite ([1, 1, 1] ! i))
               = Inr (shares ! i))
       \<and> k < length [1, 1, 1 :: rat] \<and> [1, 1, 1 :: rat] ! k = Max (set [1, 1, 1])
       \<and> (\<forall>j<k. [1, 1, 1 :: rat] ! j \<noteq> Max (set [1, 1, 1]))
       \<and> (\<forall>i<length [1, 1, 1 :: rat]. currency (parts ! i) = currency (of_minor 100 EUR)
             \<and> minor_units (parts ! i)
                 = shares ! i + (if i = k then minor_units (of_minor 100 EUR) - sum_list shares
                                 else 0))
       \<and> money_sum (zero (currency (of_minor 100 EUR))) parts = Inr (of_minor 100 EUR)"
    by blast
  then have total: "money_sum (zero EUR) parts = Inr (of_minor 100 EUR)"
    by (auto simp: of_minor_def)
  have p: "fl_div (\<lambda>x. x) (Finite 1) (Finite 3) = Inr (Finite (1 / 3))"
    by (simp add: to_float_def DBL_MAX_def Let_def)
  have u: "float_of_int (\<lambda>x. x) (minor_units (of_minor 100 EUR)) = Inr (Finite 100)"
    by (simp add: float_of_int_def of_minor_def)
  have r: "fl_mul (\<lambda>x. x) (Finite 100) (Finite (1 / 3)) = Finite (100 / 3)"
    by (simp add: to_float_def DBL_MAX_def Let_def)
  have c: "apply_rounding (\<lambda>x. x) (Finite (100 / 3)) HALF_EVEN = Inr 33"
    by (simp add: half_even_def Let_def fl)
  have val: "distribute_weighted (\<lambda>x. x) (sequential_sum (\<lambda>x. x)) (of_minor 100 EUR)
               (map Finite [1, 1, 1]) HALF_EVEN
             = Inr [of_minor 34 EUR, of_minor 33 EUR, of_minor 33 EUR]"
    unfolding distribute_weighted_def Let_def
    by (simp add: MAX_DISTRIBUTION_PARTS_def s p u r c del: fl_div.simps fl_mul.simps
        apply_rounding.simps)
      (simp add: of_minor_def)
  have ovf: "distribute_weighted (\<lambda>x. x) (sequential_sum (\<lambda>x. x)) (of_minor (2 ^ 1024) EUR)
       (map Finite [1, 1, 1]) HALF_EVEN = Inl OverflowError"
    using t2 by (simp add: of_minor_def)
  from ret val have "parts = [of_minor 34 EUR, of_minor 33 EUR, of_minor 33 EUR]" by simp
  with ret total ovf show ?thesis by blast
qed

section \<open>Properties of transactions\<close>

text \<open>
  C3 as stated fails: the documented edges are not the only ones the operations permit.
  \<open>reject\<close> applied to an admitted transaction returns a rejected one and raises nothing; it
  is the edge \<open>qualify_and_execute\<close> takes when the execute callback fails.
\<close>

theorem reject_after_admit_counterexample:
  "\<not> documented_edge (status (sample_transaction ''admitted'')) (Reject ''Execution failed: boom'')
   \<and> apply_transition (Reject ''Execution failed: boom'') (sample_transaction ''admitted'')
       = Inr ((sample_transaction ''rejected'')
                \<lparr>rejection_reason := Some ''Execution failed: boom''\<rparr>)"
  by (simp add: sample_transaction_def reject_def)

lemma permitted_edge_advances:
  assumes "permitted_edge (status tx) t"
  shows "\<exists>tx'. apply_transition t tx = Inr tx' \<and> status tx' = target_status t
           \<and> tx_id tx' = tx_id tx \<and> amount tx' = amount tx \<and> metadata tx' = metadata tx
           \<and> signature tx' = signature tx
           \<and> lifecycle_rank (status tx) < lifecycle_rank (status tx')"
proof (cases t)
  case Admit
  then show ?thesis using assms by (simp add: admit_def lifecycle_rank_def)
next
  case (Reject why)
  then show ?thesis using assms by (auto simp: reject_def lifecycle_rank_def)
next
  case Execute
  then show ?thesis using assms by (simp add: execute_def lifecycle_rank_def)
qed

lemma lifecycle_rank_bound: "lifecycle_rank s \<le> 2"
  by (simp add: lifecycle_rank_def)

lemma permitted_path_advances:
  "permitted_path (status tx) ts \<Longrightarrow>
   \<exists>tx'. apply_transitions ts tx = Inr tx'
        \<and> lifecycle_rank (status tx) + length ts \<le> lifecycle_rank (status tx')
        \<and> tx_id tx' = tx_id tx \<and> amount tx' = amount tx \<and> metadata tx' = metadata tx
        \<and> signature tx' = signature tx"
proof (induction ts arbitrary: tx)
  case Nil
  then show ?case by simp
next
  case (Cons t ts)
  from Cons.prems have e: "permitted_edge (status tx) t"
    and p: "permitted_path (target_status t) ts" by simp_all
  from permitted_edge_advances[OF e] obtain mid where
    mid: "apply_transition t tx = Inr mid" and st: "status mid = target_status t"
    and same: "tx_id mid = tx_id tx" "amount mid = amount tx" "metadata mid = metadata tx"
      "signature mid = signature tx"
    and up: "lifecycle_rank (status tx) < lifecycle_rank (status mid)"
    by blast
  from p st have "permitted_path (status mid) ts" by simp
  from Cons.IH[OF this] obtain tx' where
    run: "apply_transitions ts mid = Inr tx'"
    and le: "lifecycle_rank (status mid) + length ts \<le> lifecycle_rank (status tx')"
    and same': "tx_id tx' = tx_id mid" "amount tx' = amount mid" "metadata tx' = metadata mid"
      "signature tx' = signature mid"
    by blast
  have "apply_transitions (t # ts) tx = Inr tx'" by (simp add: mid run)
  moreover have "lifecycle_rank (status tx) + length (t # ts) \<le> lifecycle_rank (status tx')"
    using up le by simp
  ultimately show ?case using same same' by simp
qed

text \<open>
  C3, amended. The operations permit the lifecycle edges pending to admitted, pending to
  rejected, admitted to executed and admitted to rejected. Along a permitted edge the
  operation returns a new transaction with the target status and the same id, amount,
  metadata and signature, and the lifecycle advances (pending before admitted before the
  final statuses), so it never reverses: every sequence of permitted transitions succeeds,
  advances the status by at least its length, and has at most two steps. \<open>execute\<close> on a
  transaction that is not admitted raises ValueError (the specification's InvalidState).
\<close>

theorem permitted_transitions_advance:
  "(permitted_edge (status tx) t \<longrightarrow>
      (\<exists>tx'. apply_transition t tx = Inr tx' \<and> status tx' = target_status t
           \<and> tx_id tx' = tx_id tx \<and> amount tx' = amount tx \<and> metadata tx' = metadata tx
           \<and> signature tx' = signature tx
           \<and> lifecycle_rank (status tx) < lifecycle_rank (status tx')))
   \<and> (status tx \<noteq> ''admitted'' \<longrightarrow> apply_transition Execute tx = Inl ValueError)
   \<and> (permitted_path (status tx) ts \<longrightarrow>
        (\<exists>tx'. apply_transitions ts tx = Inr tx'
             \<and> lifecycle_rank (status tx) + length ts \<le> lifecycle_rank (status tx')
             \<and> length ts \<le> 2))"
proof (intro conjI impI)
  assume "permitted_edge (status tx) t"
  then show "\<exists>tx'. apply_transition t tx = Inr tx' \<and> status tx' = target_status t
           \<and> tx_id tx' = tx_id tx \<and> amount tx' = amount tx \<and> metadata tx' = metadata tx
           \<and> signature tx' = signature tx
           \<and> lifecycle_rank (status tx) < lifecycle_rank (status tx')"
    by (rule permitted_edge_advances)
next
  assume "status tx \<noteq> ''admitted''"
  then show "apply_transition Execute tx = Inl ValueError" by (simp add: execute_def)
next
  assume "permitted_path (status tx) ts"
  from permitted_path_advances[OF this] obtain tx' where
    run: "apply_transitions ts tx = Inr tx'"
    and le: "lifecycle_rank (status tx) + length ts \<le> lifecycle_rank (status tx')"
    by blast
  have "length ts \<le> 2" using le lifecycle_rank_bound[of "status tx'"] by linarith
  with run le show "\<exists>tx'. apply_transitions ts tx = Inr tx'
             \<and> lifecycle_rank (status tx) + length ts \<le> lifecycle_rank (status tx')
             \<and> length ts \<le> 2"
    by blast
qed

theorem permitted_transitions_advance_witness:
  "permitted_edge (status (sample_transaction ''pending'')) Admit
   \<and> permitted_path (status (sample_transaction ''pending'')) [Admit, Reject ''late'']
   \<and> status (sample_transaction ''pending'') \<noteq> ''admitted''
   \<and> (\<exists>tx'. apply_transition Admit (sample_transaction ''pending'') = Inr tx'
          \<and> status tx' = ''admitted''
          \<and> lifecycle_rank (status (sample_transaction ''pending'')) < lifecycle_rank (status tx'))
   \<and> apply_transition Execute (sample_transaction ''pending'') = Inl ValueError
   \<and> (\<exists>tx'. apply_transitions [Admit, Reject ''late''] (sample_transaction ''pending'') = Inr tx'
          \<and> 2 \<le> lifecycle_rank (status tx'))"
proof -
  have e: "permitted_edge (status (sample_transaction ''pending'')) Admit"
    by (simp add: sample_transaction_def)
  have p: "permitted_path (status (sample_transaction ''pending'')) [Admit, Reject ''late'']"
    by (simp add: sample_transaction_def)
  have n: "status (sample_transaction ''pending'') \<noteq> ''admitted''"
    by (simp add: sample_transaction_def)
  note t = permitted_transitions_advance[of "sample_transaction ''pending''" Admit
      "[Admit, Reject ''late'']"]
  have a: "\<exists>tx'. apply_transition Admit (sample_transaction ''pending'') = Inr tx'
          \<and> status tx' = ''admitted''
          \<and> lifecycle_rank (status (sample_transaction ''pending'')) < lifecycle_rank (status tx')"
    using t e by auto
  have x: "apply_transition Execute (sample_transaction ''pending'') = Inl ValueError"
    using t n by blast
  have r: "\<exists>tx'. apply_transitions [Admit, Reject ''late''] (sample_transaction ''pending'')
              = Inr tx' \<and> 2 \<le> lifecycle_rank (status tx')"
    using t p by auto
  show ?thesis using e p n a x r by blast
qed

lemma is_ascii_hexdigest: "is_ascii (hexdigest bs)"
proof -
  have d: "(of_char (hex_digit (n mod 16)) :: nat) < 128" for n
  proof -
    have "n mod 16 < 16" by simp
    then show ?thesis by (auto simp: hex_digit_def)
  qed
  have "b div 16 mod 16 = (b div 16) mod 16" for b :: nat by simp
  show ?thesis
    unfolding is_ascii_def hexdigest_def list_all_iff
  proof
    fix c assume "c \<in> set (concat (map (\<lambda>b. [hex_digit (b div 16 mod 16), hex_digit (b mod 16)]) bs))"
    then obtain b where "c = hex_digit (b div 16 mod 16) \<or> c = hex_digit (b mod 16)" by auto
    then show "(of_char c :: nat) < 128" using d[of "b div 16"] d[of b] by auto
  qed
qed

lemma compare_digest_ascii:
  "is_ascii a \<Longrightarrow> is_ascii b \<Longrightarrow> compare_digest a b = Inr (a = b)"
  by (simp add: compare_digest_def)

lemma compare_digest_not_ascii:
  "\<not> is_ascii a \<Longrightarrow> compare_digest a b = Inl TypeError"
  by (simp add: compare_digest_def)

lemma transition_preserves_signed_content:
  "apply_transition t tx = Inr tx' \<Longrightarrow>
   tx_id tx' = tx_id tx \<and> amount tx' = amount tx \<and> metadata tx' = metadata tx
   \<and> signature tx' = signature tx"
  by (cases t) (auto simp: admit_def reject_def execute_def split: if_splits)

lemma transitions_preserve_signed_content:
  "apply_transitions ts tx = Inr tx' \<Longrightarrow>
   tx_id tx' = tx_id tx \<and> amount tx' = amount tx \<and> metadata tx' = metadata tx
   \<and> signature tx' = signature tx"
proof (induction ts arbitrary: tx)
  case Nil
  then show ?case by simp
next
  case (Cons t ts)
  then obtain mid where mid: "apply_transition t tx = Inr mid" "apply_transitions ts mid = Inr tx'"
    by (auto split: sum.splits)
  show ?case
    using transition_preserves_signed_content[OF mid(1)] Cons.IH[OF mid(2)] by simp
qed

lemma verify_signature_depends_on_signed_content:
  "tx_id a = tx_id b \<Longrightarrow> amount a = amount b \<Longrightarrow> metadata a = metadata b
   \<Longrightarrow> signature a = signature b \<Longrightarrow> verify_signature D a = verify_signature D b"
  by (auto simp: verify_signature_def split: option.splits)

text \<open>
  C10. The signature attached by \<open>sign\<close> is the hex digest of \<open>tx_id\<close>, \<open>amount\<close> and
  \<open>metadata\<close> alone: it is the same whatever the status and the rejection reason are.
  \<open>verify_signature\<close> returns True right after \<open>sign\<close>, and on the result of every sequence
  of \<open>admit\<close>, \<open>reject\<close> and \<open>execute\<close> transitions that returns.
\<close>

theorem signature_survives_transitions:
  "signature (sign D tx) = Some (hexdigest (D (tx_id tx) (amount tx) (metadata tx)))
   \<and> signature (sign D (tx\<lparr>status := st, rejection_reason := rr\<rparr>)) = signature (sign D tx)
   \<and> verify_signature D (sign D tx) = Inr True
   \<and> (apply_transitions ts (sign D tx) = Inr tx' \<longrightarrow> verify_signature D tx' = Inr True)"
proof (intro conjI impI)
  show "signature (sign D tx) = Some (hexdigest (D (tx_id tx) (amount tx) (metadata tx)))"
    by (simp add: sign_def)
  show "signature (sign D (tx\<lparr>status := st, rejection_reason := rr\<rparr>)) = signature (sign D tx)"
    by (simp add: sign_def)
  show v: "verify_signature D (sign D tx) = Inr True"
    by (simp add: sign_def verify_signature_def compare_digest_ascii is_ascii_hexdigest)
  assume "apply_transitions ts (sign D tx) = Inr tx'"
  from transitions_preserve_signed_content[OF this]
  have "verify_signature D tx' = verify_signature D (sign D tx)"
    by (intro verify_signature_depends_on_signed_content) simp_all
  with v show "verify_signature D tx' = Inr True" by simp
qed

theorem signature_survives_transitions_witness:
  "apply_transitions [Admit, Execute, Reject ''undo'', Admit]
       (sign sample_digest (sample_transaction ''pending''))
     = Inr ((sample_transaction ''admitted'')
              \<lparr>signature := Some (hexdigest (map of_char ''tx-1test''))\<rparr>)
   \<and> verify_signature sample_digest
       ((sample_transaction ''admitted'')
          \<lparr>signature := Some (hexdigest (map of_char ''tx-1test''))\<rparr>) = Inr True"
proof -
  have run: "apply_transitions [Admit, Execute, Reject ''undo'', Admit]
       (sign sample_digest (sample_transaction ''pending''))
     = Inr ((sample_transaction ''admitted'')
              \<lparr>signature := Some (hexdigest (map of_char ''tx-1test''))\<rparr>)"
    by (simp add: sample_transaction_def sign_def admit_def reject_def execute_def
        sample_digest_def)
  show ?thesis
    using run signature_survives_transitions[where D = sample_digest
        and tx = "sample_transaction ''pending''"
        and ts = "[Admit, Execute, Reject ''undo'', Admit]"
        and tx' = "(sample_transaction ''admitted'')
                     \<lparr>signature := Some (hexdigest (map of_char ''tx-1test''))\<rparr>"]
    by simp
qed

section \<open>Properties of the gate\<close>

lemma check_amount_returns:
  "\<exists>p f. check_amount render g tx = Inr (p, f)"
  by (auto simp: check_amount_def money_le_def check_same_currency_def split: option.splits)

lemma check_human_approval_mismatch:
  "require_human_approval_above (policy g) = Some t \<Longrightarrow> currency (amount tx) \<noteq> currency t
   \<Longrightarrow> check_human_approval render g tx = Inl TypeError"
  by (simp add: check_human_approval_def money_gt_def check_same_currency_def)


lemma evaluate_threshold_mismatch:
  assumes "require_human_approval_above (policy g) = Some t"
    and "currency (amount tx) \<noteq> currency t"
  shows "evaluate render g tx = Inl TypeError"
proof -
  obtain p2 f2 where a: "check_amount render g tx = Inr (p2, f2)"
    using check_amount_returns by blast
  have h: "check_human_approval render g tx = Inl TypeError"
    using assms by (rule check_human_approval_mismatch)
  show ?thesis
    unfolding evaluate_def by (simp add: a h split: prod.splits)
qed


text \<open>
  C5. \<open>evaluate\<close> should return a decision for every transaction and policy, the
  human-approval check being advisory. When the policy's approval threshold is in another
  currency than the amount, \<open>_check_human_approval\<close> computes \<open>tx.amount > threshold\<close> before
  it looks at \<open>same_currency\<close>, the comparison raises TypeError, and \<open>evaluate\<close> returns no
  decision at all: here for 100 EUR against a threshold of 5000 USD.
\<close>

theorem evaluate_raises_on_threshold_currency_mismatch:
  "evaluate render (initial_gate (sample_policy (Some (usd 5000)))) (sample_transaction ''pending'')
     = Inl TypeError
   \<and> currency (amount (sample_transaction ''pending'')) = EUR
   \<and> require_human_approval_above (sample_policy (Some (usd 5000)))
       = Some \<lparr>minor_units = 500000, currency = USD\<rparr>"
proof -
  have "evaluate render (initial_gate (sample_policy (Some (usd 5000))))
          (sample_transaction ''pending'') = Inl TypeError"
    by (rule evaluate_threshold_mismatch[where t = "usd 5000"])
       (simp_all add: initial_gate_def sample_policy_def sample_transaction_def
          usd_def euro_def money_of_def)
  then show ?thesis
    by (simp add: sample_policy_def sample_transaction_def usd_def euro_def money_of_def
        multiplier_def)
qed

section \<open>Properties of the ledger\<close>



































section \<open>Properties of the workflow\<close>











end
